theory Spec2Isabelle
  imports Main "HOL-Library.Sublist"
begin

section \<open>Errors\<close>

text \<open>
  The exception classes of \<^verbatim>\<open>aclgenerator.py\<close> that the embedded functions raise,
  and \<^verbatim>\<open>KeyError\<close> for a dictionary subscript on a missing key.  An exception
  is a class together with the values that the source formats into its message, in the
  order of the format arguments.
\<close>

datatype af_val = AfNum int | AfStr string

datatype error_class =
    UnsupportedFilter
  | UnknownIcmpTypeError
  | MismatchIcmpInetError
  | EstablishedError
  | UnsupportedAF
  | UnsupportedFilterError
  | TermNameTooLongError
  | KeyError

datatype msg_arg =
    S string
  | AF af_val
  | Platform "string option"
  | Protocols "string set"
  | Names "string list"
  | N nat

datatype error = Error error_class "msg_arg list"

fun error_class_of :: "error \<Rightarrow> error_class" where
  "error_class_of (Error c args) = c"

section \<open>Term normaliser (class Term)\<close>

text \<open>
  \<^verbatim>\<open>AF_MAP\<close> as written in the source.  \<^verbatim>\<open>AF_MAP_BY_NUMBER\<close> is the
  flipped dictionary; the source only tests membership of its keys.
\<close>

definition AF_MAP_items :: "(string \<times> int) list" where
  "AF_MAP_items = [(''inet'', 4), (''inet6'', 6), (''bridge'', 4)]"

definition AF_MAP :: "string \<rightharpoonup> int" where
  "AF_MAP = map_of AF_MAP_items"

definition AF_MAP_BY_NUMBER :: "int \<rightharpoonup> string" where
  "AF_MAP_BY_NUMBER = map_of (map (\<lambda>(k, v). (v, k)) AF_MAP_items)"

text \<open>
  \<^verbatim>\<open>NormalizeAddressFamily(self, af)\<close>.  The argument is a number or a string;
  a string is never a key of \<^verbatim>\<open>AF_MAP_BY_NUMBER\<close> and a number never a key of
  \<^verbatim>\<open>AF_MAP\<close>.  \<open>tname\<close> is \<^verbatim>\<open>self.term.name\<close>.
\<close>

fun NormalizeAddressFamily :: "string \<Rightarrow> af_val \<Rightarrow> error + af_val" where
  "NormalizeAddressFamily tname (AfNum n) =
     (if AF_MAP_BY_NUMBER n \<noteq> None then Inr (AfNum n)
      else Inl (Error UnsupportedAF [AF (AfNum n), S tname]))"
| "NormalizeAddressFamily tname (AfStr s) =
     (case AF_MAP s of
        Some n \<Rightarrow> Inr (AfNum n)
      | None \<Rightarrow> Inl (Error UnsupportedAF [AF (AfStr s), S tname]))"

text \<open>
  The result of \<^verbatim>\<open>NormalizeIcmpTypes\<close> is a list holding either the empty string
  (for no types) or numeric codes.
\<close>

datatype icmp_val = IcmpStr string | IcmpNum int

text \<open>The loop \<^verbatim>\<open>for icmptype in icmp_types\<close> that raises at the first unknown name.\<close>

fun check_icmp_types :: "string \<Rightarrow> (string \<rightharpoonup> int) \<Rightarrow> string list \<Rightarrow> error option" where
  "check_icmp_types tname m [] = None"
| "check_icmp_types tname m (icmptype # rest) =
     (if m icmptype = None then Some (Error UnknownIcmpTypeError [S icmptype, S tname])
      else check_icmp_types tname m rest)"

text \<open>The comprehension \<^verbatim>\<open>[self.ICMP_TYPE[af][x] for x in icmp_types]\<close>.\<close>

fun icmp_codes :: "(string \<rightharpoonup> int) \<Rightarrow> string list \<Rightarrow> error + int list" where
  "icmp_codes m [] = Inr []"
| "icmp_codes m (x # xs) =
     (case m x of
        None \<Rightarrow> Inl (Error KeyError [S x])
      | Some c \<Rightarrow> (case icmp_codes m xs of Inl e \<Rightarrow> Inl e | Inr cs \<Rightarrow> Inr (c # cs)))"

text \<open>
  \<^verbatim>\<open>NormalizeIcmpTypes(self, icmp_types, protocols, af)\<close>.  The table
  \<^verbatim>\<open>ICMP_TYPE\<close> is \<^verbatim>\<open>policy.Term.ICMP_TYPE\<close>, defined outside this file: it
  is the parameter \<open>ICMP_TYPE\<close>, a dictionary from the numeric address family to a
  dictionary from type names to codes.
\<close>

definition NormalizeIcmpTypes ::
  "string \<Rightarrow> (int \<rightharpoonup> (string \<rightharpoonup> int)) \<Rightarrow> string list \<Rightarrow> string list \<Rightarrow> af_val
     \<Rightarrow> error + icmp_val list" where
  "NormalizeIcmpTypes tname ICMP_TYPE icmp_types protocols af =
     (if icmp_types = [] then Inr [IcmpStr '''']
      else if protocols \<noteq> [''icmp''] \<and> protocols \<noteq> [''icmpv6''] then
        Inl (Error UnsupportedFilterError [S tname])
      else
        (case NormalizeAddressFamily tname af of
           Inl e \<Rightarrow> Inl e
         | Inr af' \<Rightarrow>
             if (af' \<noteq> AfNum 4 \<and> protocols = [''icmp'']) \<or>
                (af' \<noteq> AfNum 6 \<and> protocols = [''icmpv6'']) then
               Inl (Error MismatchIcmpInetError [S tname])
             else
               (case af' of
                  AfStr s \<Rightarrow> Inl (Error KeyError [AF af'])
                | AfNum n \<Rightarrow>
                    (case ICMP_TYPE n of
                       None \<Rightarrow> Inl (Error KeyError [AF af'])
                     | Some m \<Rightarrow>
                         (case check_icmp_types tname m icmp_types of
                            Some e \<Rightarrow> Inl e
                          | None \<Rightarrow>
                              (case icmp_codes m icmp_types of
                                 Inl e \<Rightarrow> Inl e
                               | Inr rval \<Rightarrow> Inr (map IcmpNum (sort rval))))))))"

section \<open>The generator (class ACLGenerator)\<close>

text \<open>
  The class attributes that a platform's generator overrides.  \<open>ACLGenerator\<close> holds
  the values of the base class.
\<close>

record generator =
  PLATFORM :: "string option"
  DEFAULT_PROTOCOL :: string
  SUPPORTED_AF :: "af_val set"
  FILTER_BLACKLIST :: "af_val \<rightharpoonup> string set"
  OPTIONAL_SUPPORTED_KEYWORDS :: "string set"
  TERM_MAX_LENGTH :: nat

definition ACLGenerator :: generator where
  "ACLGenerator =
     \<lparr> PLATFORM = None,
       DEFAULT_PROTOCOL = ''ip'',
       SUPPORTED_AF = {AfStr ''inet'', AfStr ''inet6''},
       FILTER_BLACKLIST = Map.empty,
       OPTIONAL_SUPPORTED_KEYWORDS = {},
       TERM_MAX_LENGTH = 62 \<rparr>"

definition REQUIRED_KEYWORDS :: "string set" where
  "REQUIRED_KEYWORDS =
     {''action'', ''comment'', ''destination_address'', ''destination_address_exclude'',
      ''destination_port'', ''icmp_type'', ''name'', ''option'', ''protocol'', ''platform'',
      ''platform_exclude'', ''source_address'', ''source_address_exclude'', ''source_port'',
      ''translated'', ''verbatim''}"

definition ABBREVIATION_TABLE :: "(string \<times> string) list" where
  "ABBREVIATION_TABLE =
     [(''bogons'', ''BGN''), (''bogon'', ''BGN''), (''reserved'', ''RSV''),
      (''rfc1918'', ''PRV''), (''rfc-1918'', ''PRV''), (''internet'', ''EXT''),
      (''global'', ''GBL''), (''internal'', ''INT''), (''customer'', ''CUST''),
      (''google'', ''GOOG''), (''ballmer'', ''ASS''), (''microsoft'', ''LOL''),
      (''china'', ''BAN''), (''border'', ''BDR''), (''service'', ''SVC''),
      (''router'', ''RTR''), (''transit'', ''TRNS''), (''experiment'', ''EXP''),
      (''established'', ''EST''), (''unreachable'', ''UNR''), (''fragment'', ''FRG''),
      (''accept'', ''OK''), (''discard'', ''DSC''), (''reject'', ''REJ''),
      (''replies'', ''ACK''), (''request'', ''REQ'')]"

subsection \<open>Terms as objects: FixHighPorts\<close>

text \<open>
  \<^verbatim>\<open>FixHighPorts\<close> returns either the object it was given or a deep copy that it
  has changed, so terms and their port lists live in a store and are named by their
  addresses.  An object's address is its index in the store; allocation appends, so a
  new address is the length of the store before, and differs from every address in
  use.  The fields are those that \<^verbatim>\<open>FixHighPorts\<close> and the constructor
  read or write; protocol names, options (after \<^verbatim>\<open>str\<close>), platform names and
  port tuples are immutable values.  \<open>dict_items\<close> is
  \<^verbatim>\<open>term.__dict__.items()\<close> as the constructor reads it: every attribute's
  name with the truth value of the attribute, in the order of iteration.
\<close>

type_synonym addr = nat

type_synonym port_range = "int \<times> int"

record policy_term =
  name :: string
  protocol :: "string list"
  option :: "string list"
  destination_port :: addr
  platform :: "string list"
  platform_exclude :: "string list"
  dict_items :: "(string \<times> bool) list"

record store =
  term_objects :: "policy_term list"
  list_objects :: "port_range list list"

text \<open>
  A term object whose address and whose port list's address are in the store.  A
  reference that a program holds is to a live object, so the functions on the store are
  read at addresses for which this holds.
\<close>

definition valid_term :: "store \<Rightarrow> addr \<Rightarrow> bool" where
  "valid_term s t \<longleftrightarrow>
     t < length (term_objects s) \<and> destination_port (term_objects s ! t) < length (list_objects s)"

text \<open>
  \<^verbatim>\<open>copy.deepcopy(term)\<close>: a new list object with the elements of the term's
  port list, and a new term object that refers to it.
\<close>

definition deepcopy :: "store \<Rightarrow> addr \<Rightarrow> addr \<times> store" where
  "deepcopy s t =
     (let old = term_objects s ! t;
          new_list = length (list_objects s);
          new_term = length (term_objects s)
      in (new_term,
          s\<lparr> list_objects := list_objects s @ [list_objects s ! destination_port old],
             term_objects := term_objects s @ [old\<lparr>destination_port := new_list\<rparr>] \<rparr>))"

text \<open>\<^verbatim>\<open>mod.destination_port.append(x)\<close>: the list object itself changes.\<close>

definition destination_port_append :: "store \<Rightarrow> addr \<Rightarrow> port_range \<Rightarrow> store" where
  "destination_port_append s m x =
     (let l = destination_port (term_objects s ! m)
      in s\<lparr> list_objects := (list_objects s)[l := list_objects s ! l @ [x]] \<rparr>)"

text \<open>
  \<^verbatim>\<open>mod.destination_port = mod.CollapsePortList(mod.destination_port)\<close>: the
  attribute is bound to the list that the method returns, a new object.  The method
  belongs to the policy's term class, outside this file: it is the parameter
  \<open>collapse\<close>, a function from the list's elements to the elements of its
  result.
\<close>

definition destination_port_collapse ::
  "(port_range list \<Rightarrow> port_range list) \<Rightarrow> store \<Rightarrow> addr \<Rightarrow> store" where
  "destination_port_collapse collapse s m =
     (let l = destination_port (term_objects s ! m);
          new_list = length (list_objects s)
      in s\<lparr> list_objects := list_objects s @ [collapse (list_objects s ! l)],
            term_objects := (term_objects s)[m := (term_objects s ! m)\<lparr>destination_port := new_list\<rparr>] \<rparr>)"

text \<open>\<^verbatim>\<open>str.find\<close>: the lowest index where \<open>sub\<close> occurs in the string, or -1.\<close>

fun str_find :: "string \<Rightarrow> string \<Rightarrow> int" where
  "str_find [] sub = (if sub = [] then 0 else - 1)"
| "str_find (c # cs) sub =
     (if prefix sub (c # cs) then 0
      else (let r = str_find cs sub in if r < 0 then - 1 else r + 1))"

text \<open>
  The loop \<^verbatim>\<open>for opt in [str(x) for x in term.option]\<close> with its
  \<^verbatim>\<open>break\<close>, followed by \<^verbatim>\<open>return mod\<close>.  \<open>t\<close> is the address of
  \<^verbatim>\<open>term\<close>, to which \<^verbatim>\<open>mod\<close> is bound until a copy is made.
\<close>

fun established_loop ::
  "(port_range list \<Rightarrow> port_range list) \<Rightarrow> store \<Rightarrow> addr \<Rightarrow> string set \<Rightarrow> bool
     \<Rightarrow> string list \<Rightarrow> error + (addr \<times> store)" where
  "established_loop collapse s t protocols all_protocols_stateful [] = Inr (t, s)"
| "established_loop collapse s t protocols all_protocols_stateful (opt # opts) =
     (if str_find opt ''established'' = 0 then
        (let unstateful_protocols = protocols - {''tcp'', ''udp''} in
         if unstateful_protocols = {} then
           (let (m, s1) = deepcopy s t;
                s2 = destination_port_append s1 m (1024, 65535);
                s3 = destination_port_collapse collapse s2 m
            in Inr (m, s3))
         else if \<not> all_protocols_stateful then
           Inl (Error EstablishedError [Protocols unstateful_protocols, S (name (term_objects s ! t))])
         else Inr (t, s))
      else established_loop collapse s t protocols all_protocols_stateful opts)"

text \<open>
  The protocols that a term applies to: \<^verbatim>\<open>set(term.protocol)\<close> if
  \<^verbatim>\<open>term.protocol\<close> is not empty, else
  \<^verbatim>\<open>set((self._DEFAULT_PROTOCOL,))\<close>.
\<close>

definition term_protocols :: "generator \<Rightarrow> policy_term \<Rightarrow> string set" where
  "term_protocols self term =
     (if protocol term \<noteq> [] then set (protocol term) else {DEFAULT_PROTOCOL self})"

text \<open>
  \<^verbatim>\<open>FixHighPorts(self, term, af, all_protocols_stateful)\<close>; the result is the
  address of the returned object and the store after the call.
\<close>

definition FixHighPorts ::
  "generator \<Rightarrow> (port_range list \<Rightarrow> port_range list) \<Rightarrow> store \<Rightarrow> addr \<Rightarrow> af_val \<Rightarrow> bool
     \<Rightarrow> error + (addr \<times> store)" where
  "FixHighPorts self collapse s t af all_protocols_stateful =
     (let term = term_objects s ! t;
          protocols = term_protocols self term
      in if af \<notin> SUPPORTED_AF self then
           Inl (Error UnsupportedAF [AF af, S (name term), Platform (PLATFORM self)])
         else
           (case (case FILTER_BLACKLIST self af of
                    None \<Rightarrow> None
                  | Some blacklisted \<Rightarrow>
                      (let unsupported_protocols = blacklisted \<inter> protocols
                       in if unsupported_protocols \<noteq> {} then
                            Some (Error UnsupportedFilter
                                    [Platform (PLATFORM self), Protocols unsupported_protocols,
                                     AF af, S (name term)])
                          else None)) of
              Some e \<Rightarrow> Inl e
            | None \<Rightarrow>
                established_loop collapse s t protocols all_protocols_stateful
                  (option term)))"

text \<open>
  The three statements of the TCP/UDP branch, written out: the copy is the next term
  object; the list that \<^verbatim>\<open>deepcopy\<close> made for it, with the range appended, and
  the collapsed list are the next two list objects, and the copy refers to the second.
\<close>

definition high_ports_copy ::
  "(port_range list \<Rightarrow> port_range list) \<Rightarrow> store \<Rightarrow> addr \<Rightarrow> addr \<times> store" where
  "high_ports_copy collapse s t =
     (let old = term_objects s ! t;
          ports = list_objects s ! destination_port old @ [(1024, 65535)]
      in (length (term_objects s),
          s\<lparr> list_objects := list_objects s @ [ports, collapse ports],
             term_objects := term_objects s @
               [old\<lparr>destination_port := Suc (length (list_objects s))\<rparr>] \<rparr>))"

subsection \<open>FixTermLength\<close>

text \<open>
  \<^verbatim>\<open>re.sub(word, abbrev, new_term)\<close> for a pattern and a replacement without
  special characters, as every entry of the abbreviation table is: the occurrences of
  \<open>word\<close> are replaced from left to right, the search resuming after each
  replaced occurrence.  The empty pattern matches before every character and at the end.
\<close>

fun re_sub :: "string \<Rightarrow> string \<Rightarrow> string \<Rightarrow> string" where
  "re_sub [] abbrev s = abbrev @ concat (map (\<lambda>c. c # abbrev) s)"
| "re_sub (w # ws) abbrev [] = []"
| "re_sub (w # ws) abbrev (c # cs) =
     (if prefix (w # ws) (c # cs) then abbrev @ re_sub (w # ws) abbrev (drop (length ws) cs)
      else c # re_sub (w # ws) abbrev cs)"

text \<open>
  The loop \<^verbatim>\<open>for word, abbrev in self._ABBREVIATION_TABLE\<close>: it either returns
  from the function or ends with the table exhausted.
\<close>

datatype loop_exit = Returned string | Exhausted string

fun abbreviate_loop :: "nat \<Rightarrow> (string \<times> string) list \<Rightarrow> string \<Rightarrow> loop_exit" where
  "abbreviate_loop max_length [] new_term = Exhausted new_term"
| "abbreviate_loop max_length ((word, abbrev) # table) new_term =
     (if length new_term \<le> max_length then Returned new_term
      else abbreviate_loop max_length table (re_sub word abbrev new_term))"

text \<open>
  \<^verbatim>\<open>FixTermLength(self, term_name, abbreviate, truncate)\<close>; the last argument
  is written \<open>truncate'\<close>.
\<close>

definition FixTermLength :: "generator \<Rightarrow> string \<Rightarrow> bool \<Rightarrow> bool \<Rightarrow> error + string" where
  "FixTermLength self term_name abbreviate truncate' =
     (case (if abbreviate then
              abbreviate_loop (TERM_MAX_LENGTH self) ABBREVIATION_TABLE term_name
            else Exhausted term_name) of
        Returned new_term \<Rightarrow> Inr new_term
      | Exhausted abbreviated \<Rightarrow>
          (let new_term = (if truncate' then take (TERM_MAX_LENGTH self) abbreviated
                           else abbreviated)
           in if length new_term \<le> TERM_MAX_LENGTH self then Inr new_term
              else Inl (Error TermNameTooLongError
                          [S new_term, S term_name, N (TERM_MAX_LENGTH self),
                           N (length new_term)])))"

text \<open>
  The spec's reading of the abbreviation step, to compare with the loop: the entries of
  a table applied in order to a name, each by \<open>re_sub\<close>; and the entries that a
  call may apply, the whole table when \<^verbatim>\<open>abbreviate\<close> is set and none otherwise.
\<close>

definition apply_entries :: "(string \<times> string) list \<Rightarrow> string \<Rightarrow> string" where
  "apply_entries table s = fold (\<lambda>(word, abbrev). re_sub word abbrev) table s"

definition entries :: "bool \<Rightarrow> (string \<times> string) list" where
  "entries abbreviate = (if abbreviate then ABBREVIATION_TABLE else [])"

subsection \<open>The constructor's keyword check\<close>

record header =
  platforms :: "string list"

text \<open>\<^verbatim>\<open>self._PLATFORM in xs\<close>, where the class attribute may be \<^verbatim>\<open>None\<close>.\<close>

fun platform_in :: "string option \<Rightarrow> string list \<Rightarrow> bool" where
  "platform_in None xs = False"
| "platform_in (Some p) xs = (p \<in> set xs)"

definition VALID_KEYWORDS :: "generator \<Rightarrow> string set" where
  "VALID_KEYWORDS self = REQUIRED_KEYWORDS \<union> OPTIONAL_SUPPORTED_KEYWORDS self"

text \<open>The loop over \<^verbatim>\<open>term.__dict__.items()\<close> that appends to \<^verbatim>\<open>err\<close>.\<close>

fun collect_err :: "string set \<Rightarrow> (string \<times> bool) list \<Rightarrow> string list \<Rightarrow> string list" where
  "collect_err valid [] err = err"
| "collect_err valid ((el, val) # items) err =
     collect_err valid items
       (if val \<and> el \<notin> valid \<and> \<not> prefix ''flatten'' el then err @ [el] else err)"

text \<open>The loop \<^verbatim>\<open>for term in terms\<close>, with its two \<^verbatim>\<open>continue\<close> statements.\<close>

fun verify_terms :: "generator \<Rightarrow> policy_term list \<Rightarrow> error option" where
  "verify_terms self [] = None"
| "verify_terms self (term # terms) =
     (if platform term \<noteq> [] \<and> \<not> platform_in (PLATFORM self) (platform term) then
        verify_terms self terms
      else if platform_exclude term \<noteq> [] \<and>
              platform_in (PLATFORM self) (platform_exclude term) then
        verify_terms self terms
      else
        (let err = collect_err (VALID_KEYWORDS self) (dict_items term) []
         in if err \<noteq> [] then
              Some (Error UnsupportedFilterError
                      [S (name term), Platform (PLATFORM self), Names err])
            else verify_terms self terms))"

text \<open>The loop \<^verbatim>\<open>for header, terms in pol.filters\<close>.\<close>

fun verify_filters :: "generator \<Rightarrow> (header \<times> policy_term list) list \<Rightarrow> error option" where
  "verify_filters self [] = None"
| "verify_filters self ((header, terms) # filters) =
     (if platform_in (PLATFORM self) (platforms header) then
        (case verify_terms self terms of
           Some e \<Rightarrow> Some e
         | None \<Rightarrow> verify_filters self filters)
      else verify_filters self filters)"

text \<open>
  \<^verbatim>\<open>ACLGenerator.__init__(self, pol, exp_info)\<close>, with \<open>filters\<close> for
  \<^verbatim>\<open>pol.filters\<close>.  The method \<^verbatim>\<open>_TranslatePolicy\<close> is the subclass's: it is
  the parameter \<open>TranslatePolicy\<close>, called on the policy when the check has passed.
\<close>

definition ACLGenerator_init ::
  "generator \<Rightarrow> ((header \<times> policy_term list) list \<Rightarrow> error + 'a)
     \<Rightarrow> (header \<times> policy_term list) list \<Rightarrow> error + 'a" where
  "ACLGenerator_init self TranslatePolicy filters =
     (case verify_filters self filters of
        Some e \<Rightarrow> Inl e
      | None \<Rightarrow> TranslatePolicy filters)"

text \<open>
  The spec's reading of the check, to compare with the loops: a term is skipped when its
  non-empty platform list lacks the generator's platform or its exclude list has it; the
  offending fields of a term are the populated attributes that are neither valid keywords
  nor named with the prefix \<^verbatim>\<open>flatten\<close>, in the order of iteration; a term is
  reported when it is not skipped and has an offending field; and the terms that the
  constructor checks are those of the headers that name the generator's platform, in the
  order of the policy.
\<close>

definition skipped :: "generator \<Rightarrow> policy_term \<Rightarrow> bool" where
  "skipped self term \<longleftrightarrow>
     (platform term \<noteq> [] \<and> \<not> platform_in (PLATFORM self) (platform term)) \<or>
     (platform_exclude term \<noteq> [] \<and> platform_in (PLATFORM self) (platform_exclude term))"

definition offending :: "generator \<Rightarrow> policy_term \<Rightarrow> string list" where
  "offending self term =
     map fst (filter (\<lambda>(el, val). val \<and> el \<notin> VALID_KEYWORDS self \<and> \<not> prefix ''flatten'' el)
                (dict_items term))"

definition reported :: "generator \<Rightarrow> policy_term \<Rightarrow> bool" where
  "reported self term \<longleftrightarrow> \<not> skipped self term \<and> offending self term \<noteq> []"

definition checked_terms :: "generator \<Rightarrow> (header \<times> policy_term list) list \<Rightarrow> policy_term list" where
  "checked_terms self filters =
     concat (map snd (filter (\<lambda>(header, terms). platform_in (PLATFORM self) (platforms header))
                        filters))"

section \<open>Port lists\<close>

text \<open>
  Modelled from the spec: \<^verbatim>\<open>CollapsePortList\<close>, a method of the policy's term
  class, is called by \<^verbatim>\<open>FixHighPorts\<close> and is not in the source file.  The spec's
  rule: treat the port list as a set of closed integer intervals; sort by lower bound;
  merge any interval whose lower bound is at most the previous interval's upper bound
  plus one into the previous interval, by extending its upper bound to the maximum of
  the two.  \<open>merge_ports\<close> is the merging step, with the previous interval as its
  first argument.
\<close>

fun merge_ports :: "port_range \<Rightarrow> port_range list \<Rightarrow> port_range list" where
  "merge_ports (low, high) [] = [(low, high)]"
| "merge_ports (low, high) ((low', high') # ports) =
     (if low' \<le> high + 1 then merge_ports (low, max high high') ports
      else (low, high) # merge_ports (low', high') ports)"

text \<open>
  Modelled from the spec: the merging pass of \<^verbatim>\<open>CollapsePortList\<close> over a list
  sorted by lower bound, starting with its first interval as the previous one.
\<close>

fun collapse_sorted :: "port_range list \<Rightarrow> port_range list" where
  "collapse_sorted [] = []"
| "collapse_sorted (p # ports) = merge_ports p ports"

text \<open>
  Modelled from the spec: \<^verbatim>\<open>CollapsePortList(ports)\<close> sorts by lower bound (a
  stable sort on the lower bound alone) and merges.
\<close>

definition CollapsePortList :: "port_range list \<Rightarrow> port_range list" where
  "CollapsePortList ports = collapse_sorted (sort_key fst ports)"

text \<open>
  The spec's words about the result: the set of integers that a port list covers; a list
  of intervals, each with its lower bound at most its upper bound; and a sorted list of
  such intervals that are disjoint and not adjacent: every interval ends more than one
  below the start of every later one.
\<close>

definition port_set :: "port_range list \<Rightarrow> int set" where
  "port_set ports = (\<Union>(low, high)\<in>set ports. {low..high})"

definition valid_ports :: "port_range list \<Rightarrow> bool" where
  "valid_ports ports \<longleftrightarrow> (\<forall>(low, high)\<in>set ports. low \<le> high)"

definition separated :: "port_range list \<Rightarrow> bool" where
  "separated ports \<longleftrightarrow>
     valid_ports ports \<and> sorted_wrt (\<lambda>(low, high) (low', high'). high + 1 < low') ports"

section \<open>Values for the examples\<close>

text \<open>A store with five terms; the second and the fifth share a port list.\<close>

definition example_store :: store where
  "example_store =
     \<lparr> term_objects =
         [\<lparr> name = ''allow-web'', protocol = [''tcp''], option = [''established''],
             destination_port = 0, platform = [], platform_exclude = [], dict_items = [] \<rparr>,
          \<lparr> name = ''allow-ping'', protocol = [''icmp''], option = [''established''],
             destination_port = 1, platform = [], platform_exclude = [], dict_items = [] \<rparr>,
          \<lparr> name = ''allow-replies'', protocol = [''udp''],
             option = [''tcp-established'', ''established''],
             destination_port = 2, platform = [], platform_exclude = [], dict_items = [] \<rparr>,
          \<lparr> name = ''allow-ssh'', protocol = [''tcp'', ''udp''], option = [''tcp-established''],
             destination_port = 3, platform = [], platform_exclude = [], dict_items = [] \<rparr>,
          \<lparr> name = ''allow-any'', protocol = [], option = [''established''],
             destination_port = 1, platform = [], platform_exclude = [], dict_items = [] \<rparr>],
       list_objects = [[(80, 80)], [], [(1023, 1030)], [(22, 22)]] \<rparr>"

text \<open>A generator for a platform, and a policy with a term for another platform.\<close>

definition example_generator :: generator where
  "example_generator = ACLGenerator\<lparr>PLATFORM := Some ''juniper''\<rparr>"

definition other_platform_term :: policy_term where
  "other_platform_term =
     \<lparr> name = ''cisco-only'', protocol = [], option = [], destination_port = 0,
       platform = [''cisco''], platform_exclude = [],
       dict_items = [(''name'', True), (''platform'', True), (''qos'', True)] \<rparr>"

definition unsupported_term :: policy_term where
  "unsupported_term =
     \<lparr> name = ''count-all'', protocol = [], option = [], destination_port = 0,
       platform = [], platform_exclude = [''cisco''],
       dict_items = [(''name'', True), (''action'', True), (''qos'', True),
                     (''flattened'', True), (''owner'', False), (''counter'', True),
                     (''platform_exclude'', True)] \<rparr>"

definition example_filters :: "(header \<times> policy_term list) list" where
  "example_filters =
     [(\<lparr>platforms = [''cisco'']\<rparr>, [unsupported_term]),
      (\<lparr>platforms = [''juniper'', ''cisco'']\<rparr>, [other_platform_term, unsupported_term])]"

text \<open>A table of ICMP types with two names for each address family.\<close>

definition icmp_type_extract :: "int \<rightharpoonup> (string \<rightharpoonup> int)" where
  "icmp_type_extract =
     [4 \<mapsto> [''echo-reply'' \<mapsto> 0, ''echo-request'' \<mapsto> 8],
      6 \<mapsto> [''echo-request'' \<mapsto> 128, ''echo-reply'' \<mapsto> 129]]"

section \<open>Properties of the term normaliser\<close>

lemma AF_MAP_BY_NUMBER_cases:
  "AF_MAP_BY_NUMBER n =
     (if n = 4 then Some ''inet'' else if n = 6 then Some ''inet6'' else None)"
  by (simp add: AF_MAP_BY_NUMBER_def AF_MAP_items_def)

lemma AF_MAP_cases:
  "AF_MAP s = (if s = ''inet'' then Some 4 else if s = ''inet6'' then Some 6
               else if s = ''bridge'' then Some 4 else None)"
  by (simp add: AF_MAP_def AF_MAP_items_def)

lemma check_icmp_types_None:
  "check_icmp_types tname m xs = None \<longleftrightarrow> (\<forall>x\<in>set xs. m x \<noteq> None)"
  by (induction xs) auto

lemma check_icmp_types_Some:
  "check_icmp_types tname m xs = Some e \<Longrightarrow>
     \<exists>x\<in>set xs. m x = None \<and> e = Error UnknownIcmpTypeError [S x, S tname]"
  by (induction xs) (auto split: if_splits)

lemma icmp_codes_known:
  "\<forall>x\<in>set xs. m x \<noteq> None \<Longrightarrow> icmp_codes m xs = Inr (map (\<lambda>x. the (m x)) xs)"
  by (induction xs) auto

lemma NormalizeAddressFamily_range:
  "NormalizeAddressFamily tname af = Inr a \<Longrightarrow> a = AfNum 4 \<or> a = AfNum 6"
  by (cases af) (auto simp: AF_MAP_BY_NUMBER_cases AF_MAP_cases split: if_splits)

lemma NormalizeIcmpTypes_table:
  assumes "icmp_types \<noteq> []" and "protocols = [''icmp''] \<or> protocols = [''icmpv6'']"
    and "NormalizeAddressFamily tname af = Inr (AfNum n)"
    and "protocols = [''icmp''] \<longrightarrow> n = 4" and "protocols = [''icmpv6''] \<longrightarrow> n = 6"
    and "ICMP_TYPE n = Some m"
  shows "NormalizeIcmpTypes tname ICMP_TYPE icmp_types protocols af =
           (case check_icmp_types tname m icmp_types of
              Some e \<Rightarrow> Inl e
            | None \<Rightarrow> Inr (map IcmpNum (sort (map (\<lambda>x. the (m x)) icmp_types))))"
proof (cases "check_icmp_types tname m icmp_types")
  case None
  then have "icmp_codes m icmp_types = Inr (map (\<lambda>x. the (m x)) icmp_types)"
    by (intro icmp_codes_known) (simp add: check_icmp_types_None)
  with None assms show ?thesis
    by (auto simp: NormalizeIcmpTypes_def)
next
  case (Some e)
  with assms show ?thesis
    by (auto simp: NormalizeIcmpTypes_def)
qed

lemma NormalizeAddressFamily_error:
  "NormalizeAddressFamily tname af = Inl e \<Longrightarrow> e = Error UnsupportedAF [AF af, S tname]"
  by (cases af) (auto split: if_splits option.splits)

lemma icmp_codes_error:
  "icmp_codes m xs = Inl e \<Longrightarrow> error_class_of e = KeyError"
  by (induction xs arbitrary: e) (auto split: option.splits sum.splits)

lemma NormalizeIcmpTypes_error_class:
  assumes "icmp_types \<noteq> []" and "protocols = [''icmp''] \<or> protocols = [''icmpv6'']"
    and "NormalizeIcmpTypes tname ICMP_TYPE icmp_types protocols af = Inl e"
  shows "error_class_of e \<notin> {UnsupportedFilterError, UnsupportedFilter}"
  using assms
  by (auto simp: NormalizeIcmpTypes_def
           dest!: NormalizeAddressFamily_error icmp_codes_error check_icmp_types_Some
           split: option.splits sum.splits if_splits af_val.splits)

lemma NormalizeIcmpTypes_success:
  assumes "icmp_types \<noteq> []"
    and "NormalizeIcmpTypes tname ICMP_TYPE icmp_types protocols af = Inr rval"
  shows "\<exists>n m. NormalizeAddressFamily tname af = Inr (AfNum n) \<and> ICMP_TYPE n = Some m \<and>
              (\<forall>x\<in>set icmp_types. m x \<noteq> None) \<and>
              rval = map IcmpNum (sort (map (\<lambda>x. the (m x)) icmp_types))"
  using assms
  by (auto simp: NormalizeIcmpTypes_def check_icmp_types_None icmp_codes_known
           split: option.splits sum.splits if_splits af_val.splits)

text \<open>
  C3.  For a non-empty \<^verbatim>\<open>icmp_types\<close>, with \<open>r\<close> the outcome of
  \<^verbatim>\<open>NormalizeIcmpTypes(icmp_types, protocols, af)\<close>:
  \<^item> \<open>r\<close> is an error of class \<^verbatim>\<open>UnsupportedFilterError\<close> or
    \<^verbatim>\<open>UnsupportedFilter\<close> exactly when \<^verbatim>\<open>protocols\<close> is neither
    \<^verbatim>\<open>['icmp']\<close> nor \<^verbatim>\<open>['icmpv6']\<close>, and then it is an
    \<^verbatim>\<open>UnsupportedFilterError\<close> with the term's name;
  \<^item> when the address family normalises to a value other than 4 with
    \<^verbatim>\<open>['icmp']\<close>, or other than 6 with \<^verbatim>\<open>['icmpv6']\<close>, \<open>r\<close> is a
    \<^verbatim>\<open>MismatchIcmpInetError\<close>;
  \<^item> when protocol and normalised address family agree and some name has no entry in
    the table of that family, \<open>r\<close> is an \<^verbatim>\<open>UnknownIcmpTypeError\<close> for a name
    of the list that has no entry;
  \<^item> when \<open>r\<close> is a result, every name has an entry in the table of the normalised
    family and the result is the list of their codes, sorted in ascending order.
\<close>

theorem NormalizeIcmpTypes_nonempty:
  assumes "icmp_types \<noteq> []"
    and r: "r = NormalizeIcmpTypes tname ICMP_TYPE icmp_types protocols af"
  shows "((\<exists>e. r = Inl e \<and> error_class_of e \<in> {UnsupportedFilterError, UnsupportedFilter}) \<longleftrightarrow>
            (protocols \<noteq> [''icmp''] \<and> protocols \<noteq> [''icmpv6''])) \<and>
         (protocols \<noteq> [''icmp''] \<and> protocols \<noteq> [''icmpv6''] \<longrightarrow>
            r = Inl (Error UnsupportedFilterError [S tname])) \<and>
         (\<forall>a. NormalizeAddressFamily tname af = Inr a \<and>
              ((protocols = [''icmp''] \<and> a \<noteq> AfNum 4) \<or>
               (protocols = [''icmpv6''] \<and> a \<noteq> AfNum 6)) \<longrightarrow>
            r = Inl (Error MismatchIcmpInetError [S tname])) \<and>
         (\<forall>n m. ((protocols = [''icmp''] \<and> n = 4) \<or> (protocols = [''icmpv6''] \<and> n = 6)) \<and>
              NormalizeAddressFamily tname af = Inr (AfNum n) \<and> ICMP_TYPE n = Some m \<and>
              (\<exists>x\<in>set icmp_types. m x = None) \<longrightarrow>
            (\<exists>x\<in>set icmp_types. m x = None \<and>
               r = Inl (Error UnknownIcmpTypeError [S x, S tname]))) \<and>
         (\<forall>rval. r = Inr rval \<longrightarrow>
            (\<exists>n m codes. NormalizeAddressFamily tname af = Inr (AfNum n) \<and>
               ICMP_TYPE n = Some m \<and> (\<forall>x\<in>set icmp_types. m x \<noteq> None) \<and>
               codes = sort (map (\<lambda>x. the (m x)) icmp_types) \<and> sorted codes \<and>
               rval = map IcmpNum codes))"
proof (intro conjI allI impI)
  show unsupported: "r = Inl (Error UnsupportedFilterError [S tname])"
    if "protocols \<noteq> [''icmp''] \<and> protocols \<noteq> [''icmpv6'']"
    using that assms by (simp add: NormalizeIcmpTypes_def)
  show "(\<exists>e. r = Inl e \<and> error_class_of e \<in> {UnsupportedFilterError, UnsupportedFilter}) \<longleftrightarrow>
          (protocols \<noteq> [''icmp''] \<and> protocols \<noteq> [''icmpv6''])"
  proof
    assume "\<exists>e. r = Inl e \<and> error_class_of e \<in> {UnsupportedFilterError, UnsupportedFilter}"
    then obtain e where "r = Inl e" "error_class_of e \<in> {UnsupportedFilterError, UnsupportedFilter}"
      by blast
    with NormalizeIcmpTypes_error_class [OF assms(1), of protocols tname ICMP_TYPE af e] r
    show "protocols \<noteq> [''icmp''] \<and> protocols \<noteq> [''icmpv6'']" by auto
  next
    assume "protocols \<noteq> [''icmp''] \<and> protocols \<noteq> [''icmpv6'']"
    from unsupported [OF this]
    show "\<exists>e. r = Inl e \<and> error_class_of e \<in> {UnsupportedFilterError, UnsupportedFilter}"
      by simp
  qed
  show "r = Inl (Error MismatchIcmpInetError [S tname])"
    if "NormalizeAddressFamily tname af = Inr a \<and>
          ((protocols = [''icmp''] \<and> a \<noteq> AfNum 4) \<or>
           (protocols = [''icmpv6''] \<and> a \<noteq> AfNum 6))" for a
    using that assms by (auto simp: NormalizeIcmpTypes_def)
  show "\<exists>x\<in>set icmp_types. m x = None \<and>
          r = Inl (Error UnknownIcmpTypeError [S x, S tname])"
    if h: "((protocols = [''icmp''] \<and> n = 4) \<or> (protocols = [''icmpv6''] \<and> n = 6)) \<and>
             NormalizeAddressFamily tname af = Inr (AfNum n) \<and> ICMP_TYPE n = Some m \<and>
             (\<exists>x\<in>set icmp_types. m x = None)" for n m
  proof -
    from h have "check_icmp_types tname m icmp_types \<noteq> None"
      by (simp add: check_icmp_types_None)
    then obtain e where e: "check_icmp_types tname m icmp_types = Some e" by blast
    have "r = Inl e"
      unfolding r using h e
      by (subst NormalizeIcmpTypes_table [where n = n and m = m]) (auto simp: assms(1))
    with check_icmp_types_Some [OF e] show ?thesis by blast
  qed
  show "\<exists>n m codes. NormalizeAddressFamily tname af = Inr (AfNum n) \<and>
          ICMP_TYPE n = Some m \<and> (\<forall>x\<in>set icmp_types. m x \<noteq> None) \<and>
          codes = sort (map (\<lambda>x. the (m x)) icmp_types) \<and> sorted codes \<and>
          rval = map IcmpNum codes"
    if "r = Inr rval" for rval
    using NormalizeIcmpTypes_success [OF assms(1), of tname ICMP_TYPE protocols af rval] that r
    by auto
qed

theorem NormalizeIcmpTypes_nonempty_witness:
  "NormalizeIcmpTypes ''t1'' icmp_type_extract [''echo-request'', ''echo-reply''] [''tcp'']
       (AfStr ''inet'') = Inl (Error UnsupportedFilterError [S ''t1'']) \<and>
   NormalizeIcmpTypes ''t1'' icmp_type_extract [''echo-request'', ''echo-reply''] [''icmp'']
       (AfStr ''inet6'') = Inl (Error MismatchIcmpInetError [S ''t1'']) \<and>
   NormalizeIcmpTypes ''t1'' icmp_type_extract [''echo-request'', ''mask-reply''] [''icmp'']
       (AfStr ''inet'') = Inl (Error UnknownIcmpTypeError [S ''mask-reply'', S ''t1'']) \<and>
   NormalizeIcmpTypes ''t1'' icmp_type_extract [''echo-request'', ''echo-reply''] [''icmp'']
       (AfStr ''inet'') = Inr [IcmpNum 0, IcmpNum 8]"
  using
    NormalizeIcmpTypes_nonempty [OF _ refl, of "[''echo-request'', ''echo-reply'']" "''t1''"
      icmp_type_extract "[''tcp'']" "AfStr ''inet''"]
    NormalizeIcmpTypes_nonempty [OF _ refl, of "[''echo-request'', ''echo-reply'']" "''t1''"
      icmp_type_extract "[''icmp'']" "AfStr ''inet6''"]
    NormalizeIcmpTypes_nonempty [OF _ refl, of "[''echo-request'', ''mask-reply'']" "''t1''"
      icmp_type_extract "[''icmp'']" "AfStr ''inet''"]
    NormalizeIcmpTypes_nonempty [OF _ refl, of "[''echo-request'', ''echo-reply'']" "''t1''"
      icmp_type_extract "[''icmp'']" "AfStr ''inet''"]
  by (simp add: NormalizeIcmpTypes_def AF_MAP_cases icmp_type_extract_def)

text \<open>
  C7.  \<^verbatim>\<open>NormalizeAddressFamily\<close> returns the numeric values 4 and 6 unchanged,
  maps \<^verbatim>\<open>'inet'\<close> to 4, \<^verbatim>\<open>'inet6'\<close> to 6 and \<^verbatim>\<open>'bridge'\<close> to 4, and
  raises \<^verbatim>\<open>UnsupportedAF\<close> (with the value and the term's name) on every other
  number or string.
\<close>

theorem NormalizeAddressFamily_cases:
  "NormalizeAddressFamily tname af =
     (if af = AfNum 4 \<or> af = AfNum 6 then Inr af
      else if af = AfStr ''inet'' then Inr (AfNum 4)
      else if af = AfStr ''inet6'' then Inr (AfNum 6)
      else if af = AfStr ''bridge'' then Inr (AfNum 4)
      else Inl (Error UnsupportedAF [AF af, S tname]))"
  by (cases af) (auto simp: AF_MAP_BY_NUMBER_cases AF_MAP_cases)

theorem NormalizeAddressFamily_cases_witness:
  "NormalizeAddressFamily ''t1'' (AfNum 6) = Inr (AfNum 6) \<and>
   NormalizeAddressFamily ''t1'' (AfStr ''bridge'') = Inr (AfNum 4) \<and>
   NormalizeAddressFamily ''t1'' (AfStr ''bogus'') =
     Inl (Error UnsupportedAF [AF (AfStr ''bogus''), S ''t1'']) \<and>
   NormalizeAddressFamily ''t1'' (AfNum 5) =
     Inl (Error UnsupportedAF [AF (AfNum 5), S ''t1''])"
  using NormalizeAddressFamily_cases [of "''t1''" "AfNum 6"]
    NormalizeAddressFamily_cases [of "''t1''" "AfStr ''bridge''"]
    NormalizeAddressFamily_cases [of "''t1''" "AfStr ''bogus''"]
    NormalizeAddressFamily_cases [of "''t1''" "AfNum 5"]
  by simp

text \<open>
  C8.  With an empty \<^verbatim>\<open>icmp_types\<close>, \<^verbatim>\<open>NormalizeIcmpTypes\<close> returns the
  one-element list \<^verbatim>\<open>['']\<close> for every protocol list, every address family value
  (recognised or not) and every table: the test of the empty list comes before every
  other check, and no error is raised.
\<close>

theorem NormalizeIcmpTypes_empty:
  "NormalizeIcmpTypes tname ICMP_TYPE [] protocols af = Inr [IcmpStr '''']"
  by (simp add: NormalizeIcmpTypes_def)

theorem NormalizeIcmpTypes_empty_witness:
  "NormalizeIcmpTypes ''t1'' Map.empty [] [''tcp'', ''gre''] (AfStr ''bogus'') = Inr [IcmpStr '''']"
  using NormalizeIcmpTypes_empty [of "''t1''" Map.empty "[''tcp'', ''gre'']" "AfStr ''bogus''"]
  by simp

section \<open>Properties of port-list collapsing\<close>

lemma port_set_simps [simp]:
  "port_set [] = {}"
  "port_set ((low, high) # ports) = {low..high} \<union> port_set ports"
  by (simp_all add: port_set_def)

lemma port_set_append: "port_set (ports @ ports') = port_set ports \<union> port_set ports'"
  by (simp add: port_set_def)

lemma merged_interval:
  fixes low :: int
  assumes "low \<le> low'" and "low' \<le> high + 1"
  shows "{low..max high high'} = {low..high} \<union> {low'..high'}"
  using assms by auto

lemma merge_ports_port_set:
  "sorted (map fst (p # ports)) \<Longrightarrow>
     port_set (merge_ports p ports) = {fst p..snd p} \<union> port_set ports"
proof (induction p ports rule: merge_ports.induct)
  case (1 low high)
  then show ?case by simp
next
  case (2 low high low' high' ports)
  from "2.prems" have le: "low \<le> low'" and sorted_rest: "sorted (map fst ((low', high') # ports))"
    and sorted_merged: "sorted (map fst ((low, max high high') # ports))"
    by auto
  show ?case
  proof (cases "low' \<le> high + 1")
    case True
    with "2.IH"(1) [OF True sorted_merged] merged_interval [OF le True, of high']
    show ?thesis by (simp add: Un_assoc)
  next
    case False
    with "2.IH"(2) [OF False sorted_rest] show ?thesis by (simp add: Un_assoc)
  qed
qed

lemma CollapsePortList_port_set: "port_set (CollapsePortList ports) = port_set ports"
proof -
  have "port_set (collapse_sorted xs) = port_set xs" if "sorted (map fst xs)" for xs
  proof (cases xs)
    case Nil
    then show ?thesis by simp
  next
    case (Cons p ps)
    obtain low high where p: "p = (low, high)" by (cases p)
    from that merge_ports_port_set [of p ps] show ?thesis by (simp add: Cons p)
  qed
  from this [of "sort_key fst ports"] show ?thesis
    by (simp add: CollapsePortList_def port_set_def)
qed


lemma merge_ports_fst: "fst ` set (merge_ports p ports) \<subseteq> fst ` set (p # ports)"
  by (induction p ports rule: merge_ports.induct) auto

lemma merge_ports_valid:
  "valid_ports (p # ports) \<Longrightarrow> valid_ports (merge_ports p ports)"
proof (induction p ports rule: merge_ports.induct)
  case (1 low high)
  then show ?case by simp
next
  case (2 low high low' high' ports)
  from "2.prems" have merged: "valid_ports ((low, max high high') # ports)"
    and rest: "valid_ports ((low', high') # ports)" and first: "low \<le> high"
    by (auto simp: valid_ports_def)
  show ?case
  proof (cases "low' \<le> high + 1")
    case True
    with "2.IH"(1) [OF True merged] show ?thesis by simp
  next
    case False
    with "2.IH"(2) [OF False rest] first show ?thesis by (simp add: valid_ports_def)
  qed
qed

lemma merge_ports_sorted_fst:
  "sorted (map fst (p # ports)) \<Longrightarrow> sorted (map fst (merge_ports p ports))"
proof (induction p ports rule: merge_ports.induct)
  case (1 low high)
  then show ?case by simp
next
  case (2 low high low' high' ports)
  show ?case
  proof (cases "low' \<le> high + 1")
    case True
    with 2 show ?thesis by auto
  next
    case False
    from "2.prems" have rest: "sorted (map fst ((low', high') # ports))" by simp
    have "low \<le> fst q" if "q \<in> set (merge_ports (low', high') ports)" for q
    proof -
      from that merge_ports_fst [of "(low', high')" ports]
      have "fst q \<in> fst ` set ((low', high') # ports)" by blast
      with "2.prems" show ?thesis by auto
    qed
    with "2.IH"(2) [OF False rest] False show ?thesis by simp
  qed
qed

lemma merge_ports_gaps:
  "sorted (map fst (p # ports)) \<Longrightarrow>
     sorted_wrt (\<lambda>(low, high) (low', high'). high + 1 < low') (merge_ports p ports)"
proof (induction p ports rule: merge_ports.induct)
  case (1 low high)
  then show ?case by simp
next
  case (2 low high low' high' ports)
  show ?case
  proof (cases "low' \<le> high + 1")
    case True
    with 2 show ?thesis by auto
  next
    case False
    from "2.prems" have rest: "sorted (map fst ((low', high') # ports))" by simp
    have "high + 1 < fst q" if "q \<in> set (merge_ports (low', high') ports)" for q
    proof -
      from that merge_ports_fst [of "(low', high')" ports]
      have "fst q \<in> fst ` set ((low', high') # ports)" by blast
      with rest have "low' \<le> fst q" by auto
      with False show ?thesis by simp
    qed
    with "2.IH"(2) [OF False rest] False show ?thesis by (auto simp: case_prod_beta)
  qed
qed

lemma merge_ports_id:
  "sorted_wrt (\<lambda>(low, high) (low', high'). high + 1 < low') (p # ports) \<Longrightarrow>
     merge_ports p ports = p # ports"
  by (induction p ports rule: merge_ports.induct) auto

lemma collapse_sorted_id:
  "sorted_wrt (\<lambda>(low, high) (low', high'). high + 1 < low') ports \<Longrightarrow>
     collapse_sorted ports = ports"
  by (cases ports) (simp_all add: merge_ports_id)

lemma CollapsePortList_gaps:
  "sorted_wrt (\<lambda>(low, high) (low', high'). high + 1 < low') (CollapsePortList ports)"
proof (cases "sort_key fst ports")
  case Nil
  then show ?thesis by (simp add: CollapsePortList_def)
next
  case (Cons p ps)
  have "sorted (map fst (sort_key fst ports))" by (rule sorted_sort_key)
  with Cons merge_ports_gaps [of p ps] show ?thesis by (simp add: CollapsePortList_def)
qed

lemma CollapsePortList_sorted_fst: "sorted (map fst (CollapsePortList ports))"
proof (cases "sort_key fst ports")
  case Nil
  then show ?thesis by (simp add: CollapsePortList_def)
next
  case (Cons p ps)
  have "sorted (map fst (sort_key fst ports))" by (rule sorted_sort_key)
  with Cons merge_ports_sorted_fst [of p ps] show ?thesis by (simp add: CollapsePortList_def)
qed

lemma CollapsePortList_idem:
  "CollapsePortList (CollapsePortList ports) = CollapsePortList ports"
proof -
  have "sort_key fst (CollapsePortList ports) = CollapsePortList ports"
    by (rule sort_key_id_if_sorted) (rule CollapsePortList_sorted_fst)
  then have "CollapsePortList (CollapsePortList ports) = collapse_sorted (CollapsePortList ports)"
    by (simp add: CollapsePortList_def)
  also have "\<dots> = CollapsePortList ports"
    by (rule collapse_sorted_id) (rule CollapsePortList_gaps)
  finally show ?thesis .
qed

lemma CollapsePortList_valid:
  assumes "valid_ports ports"
  shows "valid_ports (CollapsePortList ports)"
proof (cases "sort_key fst ports")
  case Nil
  then show ?thesis by (simp add: CollapsePortList_def valid_ports_def)
next
  case (Cons p ps)
  from assms have "valid_ports (sort_key fst ports)" by (simp add: valid_ports_def)
  with Cons merge_ports_valid [of p ps] show ?thesis by (simp add: CollapsePortList_def)
qed

lemma CollapsePortList_separated:
  "valid_ports ports \<Longrightarrow> separated (CollapsePortList ports)"
  by (simp add: separated_def CollapsePortList_valid CollapsePortList_gaps)


lemma separated_Cons:
  "separated ((low, high) # ports) \<longleftrightarrow>
     low \<le> high \<and> (\<forall>(low', high')\<in>set ports. high + 1 < low') \<and> separated ports"
  by (auto simp: separated_def valid_ports_def)

lemma separated_pairs:
  assumes "separated ports" and "p \<in> set ports" and "q \<in> set ports"
  shows "p = q \<or> snd p + 1 < fst q \<or> snd q + 1 < fst p"
  using assms
proof (induction ports)
  case Nil
  then show ?case by simp
next
  case (Cons r ports)
  obtain low high where r: "r = (low, high)" by (cases r)
  from Cons.prems(1) have tail: "separated ports"
    and gaps: "\<forall>(low', high')\<in>set ports. high + 1 < low'"
    by (simp_all add: r separated_Cons)
  from Cons.prems(2,3) consider "p = r" "q = r" | "p = r" "q \<in> set ports"
    | "p \<in> set ports" "q = r" | "p \<in> set ports" "q \<in> set ports"
    by auto
  then show ?case
  proof cases
    case 1
    then show ?thesis by simp
  next
    case 2
    with gaps show ?thesis by (auto simp: r)
  next
    case 3
    with gaps show ?thesis by (auto simp: r)
  next
    case 4
    with Cons.IH [OF tail] show ?thesis by simp
  qed
qed

lemma separated_distinct: "separated ports \<Longrightarrow> distinct ports"
proof (induction ports)
  case Nil
  then show ?case by simp
next
  case (Cons r ports)
  obtain low high where r: "r = (low, high)" by (cases r)
  from Cons.prems have "low \<le> high" and "\<forall>(low', high')\<in>set ports. high + 1 < low'"
    and "separated ports"
    by (simp_all add: r separated_Cons)
  with Cons.IH show ?case by (auto simp: r)
qed

lemma port_set_iff: "x \<in> port_set ports \<longleftrightarrow> (\<exists>p\<in>set ports. fst p \<le> x \<and> x \<le> snd p)"
  by (simp add: port_set_def case_prod_beta)

lemma separated_minimal:
  assumes sep: "separated ports" and cover: "port_set others = port_set ports"
  shows "length ports \<le> length others"
proof -
  let ?r = "\<lambda>p q. fst q \<le> fst p \<and> fst p \<le> snd q"
  have valid: "fst p \<le> snd p" if "p \<in> set ports" for p
    using sep that by (auto simp: separated_def valid_ports_def)
  have ex: "\<exists>q. q \<in> set others \<and> ?r p q" if "p \<in> set ports" for p
  proof -
    from that valid [OF that] have "fst p \<in> port_set ports"
      unfolding port_set_iff by blast
    with cover have "fst p \<in> port_set others" by simp
    then show ?thesis unfolding port_set_iff by blast
  qed
  have before: False
    if p: "p \<in> set ports" and p': "p' \<in> set ports" and q: "q \<in> set others"
      and r: "?r p q" and r': "?r p' q" and gap: "snd p + 1 < fst p'" for p p' q
  proof -
    from valid [OF p] r r' gap have "fst q \<le> snd p + 1 \<and> snd p + 1 \<le> snd q" by simp
    with q have "snd p + 1 \<in> port_set others" unfolding port_set_iff by blast
    with cover have "snd p + 1 \<in> port_set ports" by simp
    then obtain c where c: "c \<in> set ports" "fst c \<le> snd p + 1" "snd p + 1 \<le> snd c"
      unfolding port_set_iff by blast
    from separated_pairs [OF sep p c(1)] c valid [OF p] show False by auto
  qed
  have inj: "p = p'"
    if "p \<in> set ports" "p' \<in> set ports" "q \<in> set others" "?r p q" "?r p' q" for p p' q
    using separated_pairs [OF sep that(1,2)] before [OF that(1,2,3,4,5)]
      before [OF that(2,1,3,5,4)]
    by blast
  have "card (set ports) \<le> card (set others)"
    by (rule card_le_if_inj_on_rel [where r = ?r]) (use ex inj in auto)
  also have "card (set ports) = length ports"
    by (rule distinct_card) (rule separated_distinct [OF sep])
  finally show ?thesis using card_length [of others] by simp
qed


lemma separated_above:
  assumes "separated ((low, high) # ports)" and "x \<in> port_set ports"
  shows "high + 1 < x"
proof -
  from assms(2) obtain p where p: "p \<in> set ports" "fst p \<le> x"
    unfolding port_set_iff by blast
  with assms(1) have "high + 1 < fst p" by (auto simp: separated_Cons)
  with p show ?thesis by simp
qed

lemma separated_low:
  assumes ys: "separated ((low, high) # ports)" and zs: "separated ((low', high') # ports')"
    and cover: "port_set ((low, high) # ports) = port_set ((low', high') # ports')"
  shows "low' \<le> low"
proof -
  from ys have "low \<in> port_set ((low, high) # ports)" by (simp add: separated_Cons)
  with cover have "low \<in> {low'..high'} \<union> port_set ports'" by simp
  then show ?thesis
  proof
    assume "low \<in> {low'..high'}"
    then show ?thesis by simp
  next
    assume "low \<in> port_set ports'"
    from separated_above [OF zs this] zs show ?thesis by (simp add: separated_Cons)
  qed
qed

lemma separated_high:
  assumes ys: "separated ((low, high) # ports)" and zs: "separated ((low, high') # ports')"
    and cover: "port_set ((low, high) # ports) = port_set ((low, high') # ports')"
  shows "high \<le> high'"
proof (rule ccontr)
  assume "\<not> high \<le> high'"
  moreover from zs have "low \<le> high'" by (simp add: separated_Cons)
  ultimately have "high' + 1 \<in> port_set ((low, high) # ports)" by simp
  with cover have "high' + 1 \<in> {low..high'} \<union> port_set ports'" by simp
  then show False
  proof
    assume "high' + 1 \<in> {low..high'}"
    then show False by simp
  next
    assume "high' + 1 \<in> port_set ports'"
    from separated_above [OF zs this] show False by simp
  qed
qed

lemma separated_unique:
  "separated ports \<Longrightarrow> separated ports' \<Longrightarrow> port_set ports = port_set ports' \<Longrightarrow>
     ports = ports'"
proof (induction ports arbitrary: ports')
  case Nil
  show ?case
  proof (cases ports')
    case Nil
    then show ?thesis by simp
  next
    case (Cons q qs)
    obtain low high where "q = (low, high)" by (cases q)
    with Cons Nil.prems(2) have "low \<in> port_set ports'" by (simp add: separated_Cons)
    with Nil.prems(3) show ?thesis by simp
  qed
next
  case (Cons p ports)
  obtain low high where p: "p = (low, high)" by (cases p)
  from Cons.prems(1) have v: "low \<le> high" and tail: "separated ports"
    by (simp_all add: p separated_Cons)
  from v Cons.prems(3) have "port_set ports' \<noteq> {}" by (auto simp: p)
  then obtain q qs where ports': "ports' = q # qs" by (cases ports') auto
  obtain low' high' where q: "q = (low', high')" by (cases q)
  note ys = Cons.prems(1) [unfolded p]
  note zs = Cons.prems(2) [unfolded ports' q]
  note cover = Cons.prems(3) [unfolded p ports' q]
  from zs have tail': "separated qs" by (simp add: separated_Cons)
  from separated_low [OF ys zs cover] separated_low [OF zs ys cover [symmetric]]
  have low: "low = low'" by simp
  from separated_high [OF ys zs [folded low] cover [folded low]]
    separated_high [OF zs [folded low] ys cover [folded low, symmetric]]
  have high: "high = high'" by simp
  from cover have cover': "{low..high} \<union> port_set ports = {low..high} \<union> port_set qs"
    by (simp add: low high)
  have "port_set ports = port_set qs"
  proof (intro set_eqI iffI)
    fix x assume x: "x \<in> port_set ports"
    then have "x \<in> {low..high} \<union> port_set ports" by simp
    with cover' have "x \<in> {low..high} \<union> port_set qs" by simp
    with separated_above [OF ys x] show "x \<in> port_set qs" by simp
  next
    fix x assume x: "x \<in> port_set qs"
    then have "x \<in> {low..high} \<union> port_set qs" by simp
    with cover' have "x \<in> {low..high} \<union> port_set ports" by simp
    with separated_above [OF zs x] show "x \<in> port_set ports" by (simp add: high)
  qed
  from Cons.IH [OF tail tail' this] show ?case by (simp add: p ports' q low high)
qed


text \<open>
  C9.  Collapsing a collapsed list returns the same list, and the collapsed list covers
  the same integers as the input.  For a list of intervals with lower bound at most upper
  bound, the collapsed list is sorted with its intervals disjoint and not adjacent, no
  list of intervals covering the same integers is shorter, and it is the only sorted
  list of disjoint, non-adjacent intervals that covers them.
\<close>

theorem CollapsePortList_minimal_cover:
  "CollapsePortList (CollapsePortList ports) = CollapsePortList ports \<and>
   port_set (CollapsePortList ports) = port_set ports \<and>
   (valid_ports ports \<longrightarrow>
      separated (CollapsePortList ports) \<and>
      (\<forall>others. port_set others = port_set ports \<longrightarrow>
         length (CollapsePortList ports) \<le> length others) \<and>
      (\<forall>others. separated others \<and> port_set others = port_set ports \<longrightarrow>
         others = CollapsePortList ports))"
proof (intro conjI impI allI)
  show "CollapsePortList (CollapsePortList ports) = CollapsePortList ports"
    by (rule CollapsePortList_idem)
  show cover: "port_set (CollapsePortList ports) = port_set ports"
    by (rule CollapsePortList_port_set)
  assume "valid_ports ports"
  then show sep: "separated (CollapsePortList ports)"
    by (rule CollapsePortList_separated)
  show "length (CollapsePortList ports) \<le> length others"
    if "port_set others = port_set ports" for others
    using that by (intro separated_minimal [OF sep]) (simp add: cover)
  show "others = CollapsePortList ports"
    if "separated others \<and> port_set others = port_set ports" for others
    using that by (intro separated_unique [OF _ sep]) (simp_all add: cover)
qed

theorem CollapsePortList_minimal_cover_witness:
  "CollapsePortList [(1023, 1030), (80, 80), (1024, 65535), (81, 90)] =
     [(80, 90), (1023, 65535)] \<and>
   CollapsePortList [(80, 90), (1023, 65535)] = [(80, 90), (1023, 65535)] \<and>
   separated [(80, 90), (1023, 65535)]"
proof -
  have c: "CollapsePortList [(1023, 1030), (80, 80), (1024, 65535), (81, 90)] =
      [(80, 90), (1023, 65535)]"
    by (simp add: CollapsePortList_def)
  have v: "valid_ports [(1023, 1030), (80, 80), (1024, 65535), (81, 90)]"
    by (simp add: valid_ports_def)
  from CollapsePortList_minimal_cover [of "[(1023, 1030), (80, 80), (1024, 65535), (81, 90)]"] v
  show ?thesis unfolding c by simp
qed

section \<open>Properties of FixHighPorts\<close>

lemma str_find_lower: "- 1 \<le> str_find s sub"
  by (induction s) (auto simp: Let_def)

lemma str_find_0: "str_find s sub = 0 \<longleftrightarrow> prefix sub s"
  using str_find_lower [of "tl s" sub]
  by (cases s) (auto simp: Let_def)

lemma established_copy:
  "(let (m, s1) = deepcopy s t;
        s2 = destination_port_append s1 m (1024, 65535);
        s3 = destination_port_collapse collapse s2 m
    in (Inr (m, s3) :: error + addr \<times> store)) = Inr (high_ports_copy collapse s t)"
  by (simp add: deepcopy_def destination_port_append_def destination_port_collapse_def Let_def
        nth_append high_ports_copy_def)

lemma established_loop_none:
  "\<forall>opt\<in>set opts. \<not> prefix ''established'' opt \<Longrightarrow>
     established_loop collapse s t protocols aps opts = Inr (t, s)"
  by (induction opts) (simp_all add: str_find_0)

lemma established_loop_found:
  "\<exists>opt\<in>set opts. prefix ''established'' opt \<Longrightarrow>
     established_loop collapse s t protocols aps opts =
       (if protocols - {''tcp'', ''udp''} = {} then Inr (high_ports_copy collapse s t)
        else if \<not> aps then
          Inl (Error EstablishedError
                 [Protocols (protocols - {''tcp'', ''udp''}), S (name (term_objects s ! t))])
        else Inr (t, s))"
proof (induction opts)
  case Nil
  then show ?case by simp
next
  case (Cons opt opts)
  show ?case
  proof (cases "prefix ''established'' opt")
    case True
    then have "str_find opt ''established'' = 0" by (simp only: str_find_0)
    then show ?thesis
      using established_copy [of s t collapse]
      by (simp only: established_loop.simps Let_def if_True split: if_splits) auto
  next
    case False
    then have "str_find opt ''established'' \<noteq> 0" by (simp only: str_find_0) simp
    with Cons False show ?thesis by simp
  qed
qed


lemma term_protocols_tcp_udp:
  "term_protocols self term - {''tcp'', ''udp''} = {} \<longleftrightarrow>
     term_protocols self term \<subseteq> {''tcp'', ''udp''}"
  by blast

lemma FixHighPorts_guards_passed:
  assumes "af \<in> SUPPORTED_AF self"
    and "\<forall>blacklisted. FILTER_BLACKLIST self af = Some blacklisted \<longrightarrow>
           blacklisted \<inter> term_protocols self (term_objects s ! t) = {}"
  shows "FixHighPorts self collapse s t af aps =
           established_loop collapse s t (term_protocols self (term_objects s ! t)) aps
             (option (term_objects s ! t))"
  using assms by (simp add: FixHighPorts_def Let_def split: option.splits)

lemma FixHighPorts_result:
  assumes "FixHighPorts self collapse s t af aps = Inr (m, s')"
  shows "(m, s') = (t, s) \<or>
         ((\<exists>opt\<in>set (option (term_objects s ! t)). prefix ''established'' opt) \<and>
          (m, s') = high_ports_copy collapse s t)"
proof -
  from assms have loop:
    "established_loop collapse s t (term_protocols self (term_objects s ! t)) aps
       (option (term_objects s ! t)) = Inr (m, s')"
    by (simp add: FixHighPorts_def Let_def split: option.splits if_splits)
  show ?thesis
  proof (cases "\<exists>opt\<in>set (option (term_objects s ! t)). prefix ''established'' opt")
    case True
    with loop established_loop_found [OF True, of collapse s t
        "term_protocols self (term_objects s ! t)" aps]
    show ?thesis by (auto split: if_splits)
  next
    case False
    then have "\<forall>opt\<in>set (option (term_objects s ! t)). \<not> prefix ''established'' opt" by blast
    from established_loop_none [OF this, of collapse s t
        "term_protocols self (term_objects s ! t)" aps] loop
    show ?thesis by simp
  qed
qed

lemma high_ports_copy_frame:
  assumes "(m, s') = high_ports_copy collapse s t"
  shows "\<forall>a<length (term_objects s). term_objects s' ! a = term_objects s ! a"
    and "\<forall>a<length (list_objects s). list_objects s' ! a = list_objects s ! a"
  using assms by (auto simp: high_ports_copy_def Let_def nth_append)

lemma example_terms:
  "term_objects example_store ! 0 =
     \<lparr> name = ''allow-web'', protocol = [''tcp''], option = [''established''],
       destination_port = 0, platform = [], platform_exclude = [], dict_items = [] \<rparr>"
  "term_objects example_store ! Suc 0 =
     \<lparr> name = ''allow-ping'', protocol = [''icmp''], option = [''established''],
       destination_port = 1, platform = [], platform_exclude = [], dict_items = [] \<rparr>"
  "term_objects example_store ! 2 =
     \<lparr> name = ''allow-replies'', protocol = [''udp''],
       option = [''tcp-established'', ''established''],
       destination_port = 2, platform = [], platform_exclude = [], dict_items = [] \<rparr>"
  "term_objects example_store ! 3 =
     \<lparr> name = ''allow-ssh'', protocol = [''tcp'', ''udp''], option = [''tcp-established''],
       destination_port = 3, platform = [], platform_exclude = [], dict_items = [] \<rparr>"
  "term_objects example_store ! 4 =
     \<lparr> name = ''allow-any'', protocol = [], option = [''established''],
       destination_port = 1, platform = [], platform_exclude = [], dict_items = [] \<rparr>"
  "list_objects example_store = [[(80, 80)], [], [(1023, 1030)], [(22, 22)]]"
  "length (term_objects example_store) = 5"
  by (simp_all add: example_store_def)

text \<open>
  C1 (amended).  Let a term have an option that starts with \<^verbatim>\<open>established\<close> and
  let its protocols (the declared ones, or the default protocol if none is declared) all
  be \<^verbatim>\<open>tcp\<close> or \<^verbatim>\<open>udp\<close>.  If \<^verbatim>\<open>af\<close> is one of the generator's supported
  address families and no protocol of the term is blacklisted for it, then
  \<^verbatim>\<open>FixHighPorts\<close> returns a new term object, at an address not in use before the
  call, whose fields are those of the term except that \<^verbatim>\<open>destination_port\<close> is a
  new list object holding \<^verbatim>\<open>CollapsePortList\<close> of the term's port list followed by
  \<^verbatim>\<open>(1024, 65535)\<close>.  The range is added once, whatever options follow the first
  match, and the term and its port list are as before the call.  When
  \<^verbatim>\<open>CollapsePortList\<close> is the spec's collapsing rule, the new list covers the
  term's ports and the ports from 1024 to 65535 and, for a port list of intervals with
  lower bound at most upper bound, it is sorted with disjoint, non-adjacent intervals and
  no list covering the same ports is shorter.
\<close>

theorem FixHighPorts_established_tcp_udp:
  assumes "\<exists>opt\<in>set (option (term_objects s ! t)). prefix ''established'' opt"
    and "term_protocols self (term_objects s ! t) \<subseteq> {''tcp'', ''udp''}"
    and "af \<in> SUPPORTED_AF self"
    and "\<forall>blacklisted. FILTER_BLACKLIST self af = Some blacklisted \<longrightarrow>
           blacklisted \<inter> term_protocols self (term_objects s ! t) = {}"
    and "valid_term s t"
  shows "\<exists>m s' l.
           FixHighPorts self collapse s t af all_protocols_stateful = Inr (m, s') \<and>
           m = length (term_objects s) \<and> length (term_objects s') = Suc m \<and>
           length (list_objects s) \<le> l \<and> l < length (list_objects s') \<and>
           term_objects s' ! m = (term_objects s ! t)\<lparr>destination_port := l\<rparr> \<and>
           list_objects s' ! l =
             collapse (list_objects s ! destination_port (term_objects s ! t) @ [(1024, 65535)]) \<and>
           term_objects s' ! t = term_objects s ! t \<and>
           list_objects s' ! destination_port (term_objects s ! t) =
             list_objects s ! destination_port (term_objects s ! t) \<and>
           (collapse = CollapsePortList \<longrightarrow>
              port_set (list_objects s' ! l) =
                port_set (list_objects s ! destination_port (term_objects s ! t)) \<union>
                {1024..65535} \<and>
              (valid_ports (list_objects s ! destination_port (term_objects s ! t)) \<longrightarrow>
                 separated (list_objects s' ! l) \<and>
                 (\<forall>others. port_set others = port_set (list_objects s' ! l) \<longrightarrow>
                    length (list_objects s' ! l) \<le> length others)))"
proof -
  let ?ports = "list_objects s ! destination_port (term_objects s ! t) @ [(1024, 65535)]"
  have collapsed:
    "port_set (CollapsePortList ?ports) =
       port_set (list_objects s ! destination_port (term_objects s ! t)) \<union> {1024..65535}"
    "valid_ports (list_objects s ! destination_port (term_objects s ! t)) \<longrightarrow>
       separated (CollapsePortList ?ports) \<and>
       (\<forall>others. port_set others = port_set (CollapsePortList ?ports) \<longrightarrow>
          length (CollapsePortList ?ports) \<le> length others)"
  proof -
    show "port_set (CollapsePortList ?ports) =
        port_set (list_objects s ! destination_port (term_objects s ! t)) \<union> {1024..65535}"
      by (simp add: CollapsePortList_port_set port_set_append)
    show "valid_ports (list_objects s ! destination_port (term_objects s ! t)) \<longrightarrow>
        separated (CollapsePortList ?ports) \<and>
        (\<forall>others. port_set others = port_set (CollapsePortList ?ports) \<longrightarrow>
           length (CollapsePortList ?ports) \<le> length others)"
    proof (intro impI conjI allI)
      assume "valid_ports (list_objects s ! destination_port (term_objects s ! t))"
      then have "valid_ports ?ports" by (simp add: valid_ports_def)
      then show sep: "separated (CollapsePortList ?ports)" by (rule CollapsePortList_separated)
      show "length (CollapsePortList ?ports) \<le> length others"
        if "port_set others = port_set (CollapsePortList ?ports)" for others
        using sep that by (rule separated_minimal)
    qed
  qed
  have "FixHighPorts self collapse s t af all_protocols_stateful =
          Inr (high_ports_copy collapse s t)"
    using assms(2)
    by (simp add: FixHighPorts_guards_passed [OF assms(3,4)] established_loop_found [OF assms(1)]
          term_protocols_tcp_udp)
  moreover obtain m s' where copy: "high_ports_copy collapse s t = (m, s')"
    by (cases "high_ports_copy collapse s t")
  ultimately have "FixHighPorts self collapse s t af all_protocols_stateful = Inr (m, s')"
    by simp
  moreover from copy assms(5) have
    "m = length (term_objects s)" "length (term_objects s') = Suc m"
    "length (list_objects s) \<le> Suc (length (list_objects s))"
    "Suc (length (list_objects s)) < length (list_objects s')"
    "term_objects s' ! m =
       (term_objects s ! t)\<lparr>destination_port := Suc (length (list_objects s))\<rparr>"
    "list_objects s' ! Suc (length (list_objects s)) =
       collapse (list_objects s ! destination_port (term_objects s ! t) @ [(1024, 65535)])"
    "term_objects s' ! t = term_objects s ! t"
    "list_objects s' ! destination_port (term_objects s ! t) =
       list_objects s ! destination_port (term_objects s ! t)"
    by (auto simp: high_ports_copy_def Let_def nth_append valid_term_def)
  moreover from this(6) collapsed have
    "collapse = CollapsePortList \<longrightarrow>
       port_set (list_objects s' ! Suc (length (list_objects s))) =
         port_set (list_objects s ! destination_port (term_objects s ! t)) \<union> {1024..65535} \<and>
       (valid_ports (list_objects s ! destination_port (term_objects s ! t)) \<longrightarrow>
          separated (list_objects s' ! Suc (length (list_objects s))) \<and>
          (\<forall>others. port_set others = port_set (list_objects s' ! Suc (length (list_objects s))) \<longrightarrow>
             length (list_objects s' ! Suc (length (list_objects s))) \<le> length others))"
    by simp
  ultimately show ?thesis by blast
qed


theorem FixHighPorts_established_tcp_udp_witness:
  "(\<exists>m s' l.
      FixHighPorts ACLGenerator CollapsePortList example_store 0 (AfStr ''inet'') False =
        Inr (m, s') \<and>
      m = 5 \<and> 4 \<le> l \<and> destination_port (term_objects s' ! m) = l \<and>
      list_objects s' ! l = [(80, 80), (1024, 65535)] \<and>
      list_objects s' ! destination_port (term_objects s' ! 0) = [(80, 80)]) \<and>
   (\<exists>m s' l.
      FixHighPorts ACLGenerator CollapsePortList example_store 2 (AfStr ''inet6'') True =
        Inr (m, s') \<and>
      m = 5 \<and> 4 \<le> l \<and> destination_port (term_objects s' ! m) = l \<and>
      list_objects s' ! l = [(1023, 65535)] \<and>
      list_objects s' ! destination_port (term_objects s' ! 2) = [(1023, 1030)])"
proof -
  have e0: "\<exists>opt\<in>set (option (term_objects example_store ! 0)). prefix ''established'' opt"
    and e2: "\<exists>opt\<in>set (option (term_objects example_store ! 2)). prefix ''established'' opt"
    by (simp_all add: example_terms)
  have p0: "term_protocols ACLGenerator (term_objects example_store ! 0) \<subseteq> {''tcp'', ''udp''}"
    and p2: "term_protocols ACLGenerator (term_objects example_store ! 2) \<subseteq> {''tcp'', ''udp''}"
    by (simp_all add: example_terms term_protocols_def)
  have af: "AfStr ''inet'' \<in> SUPPORTED_AF ACLGenerator"
    and af6: "AfStr ''inet6'' \<in> SUPPORTED_AF ACLGenerator"
    by (simp_all add: ACLGenerator_def)
  have bl: "\<forall>blacklisted. FILTER_BLACKLIST ACLGenerator af = Some blacklisted \<longrightarrow>
      blacklisted \<inter> term_protocols ACLGenerator (term_objects example_store ! k) = {}" for af k
    by (simp add: ACLGenerator_def)
  have v0: "valid_term example_store 0" and v2: "valid_term example_store 2"
    by (simp_all add: valid_term_def example_terms)
  have c0: "CollapsePortList ([(80, 80)] @ [(1024, 65535)]) = [(80, 80), (1024, 65535)]"
    and c2: "CollapsePortList ([(1023, 1030)] @ [(1024, 65535)]) = [(1023, 65535)]"
    by (simp_all add: CollapsePortList_def)
  from FixHighPorts_established_tcp_udp [OF e0 p0 af bl v0, of CollapsePortList False]
  obtain m s' l where
    "FixHighPorts ACLGenerator CollapsePortList example_store 0 (AfStr ''inet'') False =
       Inr (m, s')"
    "m = length (term_objects example_store)" "length (list_objects example_store) \<le> l"
    "term_objects s' ! m = (term_objects example_store ! 0)\<lparr>destination_port := l\<rparr>"
    "list_objects s' ! l =
       CollapsePortList (list_objects example_store !
         destination_port (term_objects example_store ! 0) @ [(1024, 65535)])"
    "term_objects s' ! 0 = term_objects example_store ! 0"
    "list_objects s' ! destination_port (term_objects example_store ! 0) =
       list_objects example_store ! destination_port (term_objects example_store ! 0)"
    by blast
  then have
    "FixHighPorts ACLGenerator CollapsePortList example_store 0 (AfStr ''inet'') False =
       Inr (m, s') \<and>
     m = 5 \<and> 4 \<le> l \<and> destination_port (term_objects s' ! m) = l \<and>
     list_objects s' ! l = [(80, 80), (1024, 65535)] \<and>
     list_objects s' ! destination_port (term_objects s' ! 0) = [(80, 80)]"
    by (simp add: example_terms c0 [simplified])
  then have first: "\<exists>m s' l.
      FixHighPorts ACLGenerator CollapsePortList example_store 0 (AfStr ''inet'') False =
        Inr (m, s') \<and>
      m = 5 \<and> 4 \<le> l \<and> destination_port (term_objects s' ! m) = l \<and>
      list_objects s' ! l = [(80, 80), (1024, 65535)] \<and>
      list_objects s' ! destination_port (term_objects s' ! 0) = [(80, 80)]"
    by blast
  from FixHighPorts_established_tcp_udp [OF e2 p2 af6 bl v2, of CollapsePortList True]
  obtain m s' l where
    "FixHighPorts ACLGenerator CollapsePortList example_store 2 (AfStr ''inet6'') True =
       Inr (m, s')"
    "m = length (term_objects example_store)" "length (list_objects example_store) \<le> l"
    "term_objects s' ! m = (term_objects example_store ! 2)\<lparr>destination_port := l\<rparr>"
    "list_objects s' ! l =
       CollapsePortList (list_objects example_store !
         destination_port (term_objects example_store ! 2) @ [(1024, 65535)])"
    "term_objects s' ! 2 = term_objects example_store ! 2"
    "list_objects s' ! destination_port (term_objects example_store ! 2) =
       list_objects example_store ! destination_port (term_objects example_store ! 2)"
    by blast
  then have
    "FixHighPorts ACLGenerator CollapsePortList example_store 2 (AfStr ''inet6'') True =
       Inr (m, s') \<and>
     m = 5 \<and> 4 \<le> l \<and> destination_port (term_objects s' ! m) = l \<and>
     list_objects s' ! l = [(1023, 65535)] \<and>
     list_objects s' ! destination_port (term_objects s' ! 2) = [(1023, 1030)]"
    by (simp add: example_terms c2 [simplified])
  then have "\<exists>m s' l.
      FixHighPorts ACLGenerator CollapsePortList example_store 2 (AfStr ''inet6'') True =
        Inr (m, s') \<and>
      m = 5 \<and> 4 \<le> l \<and> destination_port (term_objects s' ! m) = l \<and>
      list_objects s' ! l = [(1023, 65535)] \<and>
      list_objects s' ! destination_port (term_objects s' ! 2) = [(1023, 1030)]"
    by blast
  with first show ?thesis by blast
qed

text \<open>
  As stated, for every \<^verbatim>\<open>af\<close>, C1 fails: the address family is checked first, and
  an unsupported one raises \<^verbatim>\<open>UnsupportedAF\<close> for a TCP term with the option
  \<^verbatim>\<open>established\<close>.
\<close>

theorem FixHighPorts_unsupported_af_before_copy:
  "FixHighPorts ACLGenerator CollapsePortList example_store 0 (AfStr ''bogus'') False =
     Inl (Error UnsupportedAF [AF (AfStr ''bogus''), S ''allow-web'', Platform None])"
  by (simp add: FixHighPorts_def example_terms ACLGenerator_def Let_def)


text \<open>
  C2.  After a call of \<^verbatim>\<open>FixHighPorts\<close> that returns, the term object passed in
  has the fields it had before and its \<^verbatim>\<open>destination_port\<close> list has the elements
  it had before, as has every term and list object that existed before the call; and when
  no option of the term starts with \<^verbatim>\<open>established\<close>, the object returned is the
  one passed in and the store is unchanged (no copy is made).
\<close>

theorem FixHighPorts_frame:
  assumes "valid_term s t"
    and "FixHighPorts self collapse s t af all_protocols_stateful = Inr (m, s')"
  shows "term_objects s' ! t = term_objects s ! t \<and>
         list_objects s' ! destination_port (term_objects s' ! t) =
           list_objects s ! destination_port (term_objects s ! t) \<and>
         (\<forall>a<length (term_objects s). term_objects s' ! a = term_objects s ! a) \<and>
         (\<forall>a<length (list_objects s). list_objects s' ! a = list_objects s ! a) \<and>
         ((\<forall>opt\<in>set (option (term_objects s ! t)). \<not> prefix ''established'' opt) \<longrightarrow>
            m = t \<and> s' = s)"
proof -
  from FixHighPorts_result [OF assms(2)]
  consider "(m, s') = (t, s)"
    | "\<exists>opt\<in>set (option (term_objects s ! t)). prefix ''established'' opt"
      "(m, s') = high_ports_copy collapse s t"
    by blast
  then show ?thesis
  proof cases
    case 1
    then show ?thesis by simp
  next
    case 2
    from high_ports_copy_frame [OF 2(2)] assms(1) 2(1) show ?thesis
      by (auto simp: valid_term_def)
  qed
qed

theorem FixHighPorts_frame_witness:
  "(\<exists>s'. FixHighPorts ACLGenerator CollapsePortList example_store 3 (AfStr ''inet6'') False =
          Inr (3, s') \<and> s' = example_store \<and>
        list_objects s' ! destination_port (term_objects s' ! 3) = [(22, 22)]) \<and>
   (\<exists>s'. FixHighPorts ACLGenerator CollapsePortList example_store 0 (AfStr ''inet'') False =
          Inr (5, s') \<and>
        term_objects s' ! 0 = term_objects example_store ! 0 \<and>
        list_objects s' ! destination_port (term_objects s' ! 0) = [(80, 80)] \<and>
        list_objects s' ! destination_port (term_objects s' ! 5) = [(80, 80), (1024, 65535)])"
proof -
  have v: "valid_term example_store 3" and v0: "valid_term example_store 0"
    by (simp_all add: valid_term_def example_terms)
  have r: "FixHighPorts ACLGenerator CollapsePortList example_store 3 (AfStr ''inet6'') False =
      Inr (3, example_store)"
    by (simp add: FixHighPorts_def example_terms ACLGenerator_def Let_def term_protocols_def)
  from FixHighPorts_frame [OF v r] r have first:
    "\<exists>s'. FixHighPorts ACLGenerator CollapsePortList example_store 3 (AfStr ''inet6'') False =
          Inr (3, s') \<and> s' = example_store \<and>
        list_objects s' ! destination_port (term_objects s' ! 3) = [(22, 22)]"
    by (simp add: example_terms)
  have "FixHighPorts ACLGenerator CollapsePortList example_store 0 (AfStr ''inet'') False =
      Inr (high_ports_copy CollapsePortList example_store 0)"
  proof -
    have "AfStr ''inet'' \<in> SUPPORTED_AF ACLGenerator"
      and "\<forall>blacklisted. FILTER_BLACKLIST ACLGenerator (AfStr ''inet'') = Some blacklisted \<longrightarrow>
        blacklisted \<inter> term_protocols ACLGenerator (term_objects example_store ! 0) = {}"
      by (simp_all add: ACLGenerator_def)
    from FixHighPorts_guards_passed [OF this]
    have "FixHighPorts ACLGenerator CollapsePortList example_store 0 (AfStr ''inet'') False =
        established_loop CollapsePortList example_store 0
          (term_protocols ACLGenerator (term_objects example_store ! 0)) False
          (option (term_objects example_store ! 0))" .
    also have "\<dots> = Inr (high_ports_copy CollapsePortList example_store 0)"
      by (subst established_loop_found) (simp_all add: example_terms term_protocols_def)
    finally show ?thesis .
  qed
  moreover obtain m s' where c: "high_ports_copy CollapsePortList example_store 0 = (m, s')"
    by (cases "high_ports_copy CollapsePortList example_store 0")
  ultimately have r0:
    "FixHighPorts ACLGenerator CollapsePortList example_store 0 (AfStr ''inet'') False =
      Inr (m, s')" by simp
  from c have m: "m = 5"
    and l: "list_objects s' ! destination_port (term_objects s' ! 5) = [(80, 80), (1024, 65535)]"
    by (auto simp: high_ports_copy_def Let_def example_terms CollapsePortList_def nth_append)
  from FixHighPorts_frame [OF v0 r0] r0 m l
  have "FixHighPorts ACLGenerator CollapsePortList example_store 0 (AfStr ''inet'') False =
          Inr (5, s') \<and>
        term_objects s' ! 0 = term_objects example_store ! 0 \<and>
        list_objects s' ! destination_port (term_objects s' ! 0) = [(80, 80)] \<and>
        list_objects s' ! destination_port (term_objects s' ! 5) = [(80, 80), (1024, 65535)]"
    by (simp add: example_terms)
  with first show ?thesis by blast
qed


text \<open>
  C4 (amended).  Let a term have an option that starts with \<^verbatim>\<open>established\<close> and
  a protocol (declared, or the default) other than \<^verbatim>\<open>tcp\<close> and \<^verbatim>\<open>udp\<close>.
  If \<^verbatim>\<open>af\<close> is one of the generator's supported address families and no protocol
  of the term is blacklisted for it, then \<^verbatim>\<open>FixHighPorts\<close> raises
  \<^verbatim>\<open>EstablishedError\<close> with those protocols and the term's name when
  \<^verbatim>\<open>all_protocols_stateful\<close> is false, and returns the object passed in, with the
  store unchanged, when it is true.
\<close>

theorem FixHighPorts_established_other:
  assumes "\<exists>opt\<in>set (option (term_objects s ! t)). prefix ''established'' opt"
    and "\<not> term_protocols self (term_objects s ! t) \<subseteq> {''tcp'', ''udp''}"
    and "af \<in> SUPPORTED_AF self"
    and "\<forall>blacklisted. FILTER_BLACKLIST self af = Some blacklisted \<longrightarrow>
           blacklisted \<inter> term_protocols self (term_objects s ! t) = {}"
  shows "FixHighPorts self collapse s t af all_protocols_stateful =
           (if all_protocols_stateful then Inr (t, s)
            else Inl (Error EstablishedError
                        [Protocols (term_protocols self (term_objects s ! t) - {''tcp'', ''udp''}),
                         S (name (term_objects s ! t))]))"
  using assms(2)
  by (simp add: FixHighPorts_guards_passed [OF assms(3,4)] established_loop_found [OF assms(1)]
        term_protocols_tcp_udp)

theorem FixHighPorts_established_other_witness:
  "FixHighPorts ACLGenerator CollapsePortList example_store 1 (AfStr ''inet'') False =
     Inl (Error EstablishedError [Protocols {''icmp''}, S ''allow-ping'']) \<and>
   FixHighPorts ACLGenerator CollapsePortList example_store 1 (AfStr ''inet'') True =
     Inr (1, example_store) \<and>
   FixHighPorts ACLGenerator CollapsePortList example_store 4 (AfStr ''inet'') False =
     Inl (Error EstablishedError [Protocols {''ip''}, S ''allow-any''])"
proof -
  have 1: "\<exists>opt\<in>set (option (term_objects example_store ! Suc 0)). prefix ''established'' opt"
    and 2: "\<exists>opt\<in>set (option (term_objects example_store ! 4)). prefix ''established'' opt"
    by (simp_all add: example_terms)
  have p1: "term_protocols ACLGenerator (term_objects example_store ! Suc 0) = {''icmp''}"
    and p2: "term_protocols ACLGenerator (term_objects example_store ! 4) = {''ip''}"
    by (simp_all add: example_terms term_protocols_def ACLGenerator_def)
  have n1: "\<not> term_protocols ACLGenerator (term_objects example_store ! Suc 0) \<subseteq> {''tcp'', ''udp''}"
    and n2: "\<not> term_protocols ACLGenerator (term_objects example_store ! 4) \<subseteq> {''tcp'', ''udp''}"
    by (simp_all add: p1 p2)
  have af: "AfStr ''inet'' \<in> SUPPORTED_AF ACLGenerator"
    by (simp add: ACLGenerator_def)
  have bl: "\<forall>blacklisted. FILTER_BLACKLIST ACLGenerator (AfStr ''inet'') = Some blacklisted \<longrightarrow>
      blacklisted \<inter> term_protocols ACLGenerator (term_objects example_store ! k) = {}" for k
    by (simp add: ACLGenerator_def)
  have d: "{''icmp''} - {''tcp'', ''udp''} = {''icmp''}" "{''ip''} - {''tcp'', ''udp''} = {''ip''}"
    by auto
  show ?thesis
    using FixHighPorts_established_other [OF 1 n1 af bl, of CollapsePortList False]
      FixHighPorts_established_other [OF 1 n1 af bl, of CollapsePortList True]
      FixHighPorts_established_other [OF 2 n2 af bl, of CollapsePortList False]
    unfolding p1 p2 d by (simp add: example_terms)
qed

text \<open>
  As stated, for every \<^verbatim>\<open>af\<close>, C4 fails: with an unsupported address family an
  ICMP term with the option \<^verbatim>\<open>established\<close> raises \<^verbatim>\<open>UnsupportedAF\<close>, not
  \<^verbatim>\<open>EstablishedError\<close>.
\<close>

theorem FixHighPorts_unsupported_af_before_established:
  "FixHighPorts ACLGenerator CollapsePortList example_store 1 (AfStr ''bogus'') False =
     Inl (Error UnsupportedAF [AF (AfStr ''bogus''), S ''allow-ping'', Platform None])"
  by (simp add: FixHighPorts_def example_terms ACLGenerator_def Let_def)

lemma established_loop_error:
  "established_loop collapse s t protocols aps opts = Inl e \<Longrightarrow>
     error_class_of e = EstablishedError"
  by (induction opts) (auto simp: Let_def split: if_splits prod.splits)

text \<open>
  C10.  With the supported address families of the base class, \<^verbatim>\<open>'inet'\<close> and
  \<^verbatim>\<open>'inet6'\<close>, \<^verbatim>\<open>FixHighPorts\<close> raises \<^verbatim>\<open>UnsupportedAF\<close> for every
  term when \<^verbatim>\<open>af\<close> is a number (4 and 6 included): the value is compared with the
  names only.  It raises \<^verbatim>\<open>UnsupportedAF\<close> exactly when \<^verbatim>\<open>af\<close> is neither
  of the two names.
\<close>

theorem FixHighPorts_numeric_af:
  assumes "SUPPORTED_AF self = {AfStr ''inet'', AfStr ''inet6''}"
  shows "FixHighPorts self collapse s t (AfNum n) all_protocols_stateful =
           Inl (Error UnsupportedAF
                  [AF (AfNum n), S (name (term_objects s ! t)), Platform (PLATFORM self)]) \<and>
         ((\<exists>args. FixHighPorts self collapse s t af all_protocols_stateful =
                    Inl (Error UnsupportedAF args)) \<longleftrightarrow>
            af \<noteq> AfStr ''inet'' \<and> af \<noteq> AfStr ''inet6'')"
proof
  show "FixHighPorts self collapse s t (AfNum n) all_protocols_stateful =
          Inl (Error UnsupportedAF
                 [AF (AfNum n), S (name (term_objects s ! t)), Platform (PLATFORM self)])"
    by (simp add: FixHighPorts_def assms Let_def)
  show "(\<exists>args. FixHighPorts self collapse s t af all_protocols_stateful =
                  Inl (Error UnsupportedAF args)) \<longleftrightarrow>
          af \<noteq> AfStr ''inet'' \<and> af \<noteq> AfStr ''inet6''"
    by (auto simp: FixHighPorts_def assms Let_def
             dest!: established_loop_error split: option.splits if_splits)
qed

theorem FixHighPorts_numeric_af_witness:
  "FixHighPorts ACLGenerator CollapsePortList example_store 0 (AfNum 4) False =
     Inl (Error UnsupportedAF [AF (AfNum 4), S ''allow-web'', Platform None]) \<and>
   FixHighPorts ACLGenerator CollapsePortList example_store 3 (AfNum 6) True =
     Inl (Error UnsupportedAF [AF (AfNum 6), S ''allow-ssh'', Platform None])"
proof -
  have "SUPPORTED_AF ACLGenerator = {AfStr ''inet'', AfStr ''inet6''}"
    by (simp add: ACLGenerator_def)
  from FixHighPorts_numeric_af [OF this, of CollapsePortList example_store 0 4 False]
    FixHighPorts_numeric_af [OF this, of CollapsePortList example_store 3 6 True]
  show ?thesis by (simp add: example_terms ACLGenerator_def)
qed


section \<open>Properties of FixTermLength\<close>

lemma apply_entries_simps [simp]:
  "apply_entries [] s = s"
  "apply_entries ((word, abbrev) # table) s = apply_entries table (re_sub word abbrev s)"
  by (simp_all add: apply_entries_def)

lemma re_sub_match:
  "prefix (w # ws) (c # cs) \<Longrightarrow>
     re_sub (w # ws) abbrev (c # cs) = abbrev @ re_sub (w # ws) abbrev (drop (length ws) cs)"
  by (subst re_sub.simps(3)) (simp only: if_True)

lemma re_sub_no_match:
  "\<not> prefix (w # ws) (c # cs) \<Longrightarrow>
     re_sub (w # ws) abbrev (c # cs) = c # re_sub (w # ws) abbrev cs"
  by (subst re_sub.simps(3)) (simp only: if_False)

lemma re_sub_prefix:
  "abbrev \<noteq> [] \<Longrightarrow> set abbrev \<inter> set u = {} \<Longrightarrow>
   prefix u (re_sub (w # ws) abbrev s) \<Longrightarrow> prefix u s"
proof (induction s arbitrary: u)
  case Nil
  then show ?case by simp
next
  case (Cons c cs)
  show ?case
  proof (cases u)
    case Nil
    then show ?thesis by simp
  next
    case u: (Cons u0 us)
    show ?thesis
    proof (cases "prefix (w # ws) (c # cs)")
      case True
      from Cons.prems(1) obtain a0 as where a: "abbrev = a0 # as" by (cases abbrev) auto
      from Cons.prems(3) have "u0 = a0"
        unfolding re_sub_match [OF True] u a append_Cons Cons_prefix_Cons by blast
      with Cons.prems(2) show ?thesis by (simp add: u a)
    next
      case False
      from Cons.prems(3) have c: "u0 = c" and rest: "prefix us (re_sub (w # ws) abbrev cs)"
        unfolding re_sub_no_match [OF False] u Cons_prefix_Cons by blast+
      from Cons.prems(2) have "set abbrev \<inter> set us = {}" by (auto simp: u)
      from Cons.IH [OF Cons.prems(1) this rest] c show ?thesis by (simp add: u)
    qed
  qed
qed

lemma sublist_after_abbrev:
  "set abbrev \<inter> set word = {} \<Longrightarrow> word \<noteq> [] \<Longrightarrow> sublist word (abbrev @ s) \<Longrightarrow> sublist word s"
proof (induction abbrev)
  case Nil
  then show ?case by simp
next
  case (Cons a abbrev)
  from Cons.prems(2) obtain w ws where word: "word = w # ws" by (cases word) auto
  from Cons.prems(1) have "a \<noteq> w" by (auto simp: word)
  with Cons.prems(3) have "sublist word (abbrev @ s)"
    by (simp add: word sublist_Cons_right)
  with Cons.IH Cons.prems(1,2) show ?case by simp
qed

lemma re_sub_replaces_all:
  assumes "word \<noteq> []" and "abbrev \<noteq> []" and "set abbrev \<inter> set word = {}"
  shows "\<not> sublist word (re_sub word abbrev s)"
proof -
  from assms(1) obtain w ws where word: "word = w # ws" by (cases word) auto
  have "\<not> sublist (w # ws) (re_sub (w # ws) abbrev s)"
  proof (induction s rule: length_induct)
    case (1 s)
    show ?case
    proof (cases s)
      case Nil
      then show ?thesis by simp
    next
      case s: (Cons c cs)
      show ?thesis
      proof (cases "prefix (w # ws) (c # cs)")
        case True
        have "length (drop (length ws) cs) < length s" by (simp add: s)
        with "1.IH" have "\<not> sublist (w # ws) (re_sub (w # ws) abbrev (drop (length ws) cs))"
          by blast
        with sublist_after_abbrev [of abbrev "w # ws"] assms(3) show ?thesis
          unfolding s re_sub_match [OF True] word by blast
      next
        case False
        have "length cs < length s" by (simp add: s)
        with "1.IH" have tail: "\<not> sublist (w # ws) (re_sub (w # ws) abbrev cs)" by blast
        have "\<not> prefix (w # ws) (c # re_sub (w # ws) abbrev cs)"
        proof
          assume "prefix (w # ws) (c # re_sub (w # ws) abbrev cs)"
          then have "prefix ws (re_sub (w # ws) abbrev cs)" and "w = c"
            unfolding Cons_prefix_Cons by blast+
          moreover from assms(3) have "set abbrev \<inter> set ws = {}" by (auto simp: word)
          ultimately have "prefix ws cs" and "w = c"
            using re_sub_prefix [OF assms(2)] by blast+
          then have "prefix (w # ws) (c # cs)" unfolding Cons_prefix_Cons by blast
          with False show False ..
        qed
        with tail show ?thesis
          unfolding s re_sub_no_match [OF False] by (simp only: sublist_Cons_right) blast
      qed
    qed
  qed
  then show ?thesis by (simp add: word)
qed

lemma re_sub_no_occurrence:
  "\<not> sublist (w # ws) s \<Longrightarrow> re_sub (w # ws) abbrev s = s"
proof (induction s)
  case Nil
  then show ?case by simp
next
  case (Cons c cs)
  from Cons.prems have no: "\<not> prefix (w # ws) (c # cs)" and "\<not> sublist (w # ws) cs"
    unfolding sublist_Cons_right by blast+
  from Cons.IH [OF this(2)] show ?case unfolding re_sub_no_match [OF no] by (rule arg_cong)
qed

lemma ABBREVIATION_TABLE_entries:
  "\<forall>(word, abbrev)\<in>set ABBREVIATION_TABLE.
     word \<noteq> [] \<and> abbrev \<noteq> [] \<and> set abbrev \<inter> set word = {}"
  by (simp add: ABBREVIATION_TABLE_def)

lemma abbreviate_loop_exhausted:
  "\<forall>j<length table. mx < length (apply_entries (take j table) s) \<Longrightarrow>
     abbreviate_loop mx table s = Exhausted (apply_entries table s)"
proof (induction table arbitrary: s)
  case Nil
  then show ?case by simp
next
  case (Cons e table)
  obtain word abbrev where e: "e = (word, abbrev)" by (cases e)
  from Cons.prems have "mx < length (apply_entries (take 0 (e # table)) s)" by blast
  then have long: "mx < length s" by simp
  have "\<forall>j<length table. mx < length (apply_entries (take j table) (re_sub word abbrev s))"
  proof (intro allI impI)
    fix j assume "j < length table"
    then have "Suc j < length (e # table)" by simp
    with Cons.prems have "mx < length (apply_entries (take (Suc j) (e # table)) s)" by blast
    then show "mx < length (apply_entries (take j table) (re_sub word abbrev s))"
      by (simp add: e)
  qed
  from Cons.IH [OF this] long show ?case by (simp add: e)
qed

lemma abbreviate_loop_returned:
  "k < length table \<Longrightarrow> length (apply_entries (take k table) s) \<le> mx \<Longrightarrow>
   \<forall>j<k. mx < length (apply_entries (take j table) s) \<Longrightarrow>
     abbreviate_loop mx table s = Returned (apply_entries (take k table) s)"
proof (induction table arbitrary: s k)
  case Nil
  then show ?case by simp
next
  case (Cons e table)
  obtain word abbrev where e: "e = (word, abbrev)" by (cases e)
  show ?case
  proof (cases k)
    case 0
    with Cons.prems show ?thesis by (simp add: e)
  next
    case (Suc k')
    with Cons.prems have "mx < length (apply_entries (take 0 (e # table)) s)" by blast
    then have long: "mx < length s" by simp
    have "\<forall>j<k'. mx < length (apply_entries (take j table) (re_sub word abbrev s))"
    proof (intro allI impI)
      fix j assume "j < k'"
      then have "Suc j < k" by (simp add: Suc)
      with Cons.prems have "mx < length (apply_entries (take (Suc j) (e # table)) s)" by blast
      then show "mx < length (apply_entries (take j table) (re_sub word abbrev s))"
        by (simp add: e)
    qed
    moreover from Cons.prems Suc have "k' < length table" by simp
    moreover from Cons.prems Suc
    have "length (apply_entries (take k' table) (re_sub word abbrev s)) \<le> mx"
      by (simp add: e)
    ultimately have "abbreviate_loop mx table (re_sub word abbrev s) =
        Returned (apply_entries (take k' table) (re_sub word abbrev s))"
      by (rule Cons.IH [rotated 2])
    with long show ?thesis by (simp add: e Suc)
  qed
qed


lemma abbreviate_loop_entries:
  assumes "\<forall>j<length (entries abbreviate).
      mx < length (apply_entries (take j (entries abbreviate)) s)"
  shows "(if abbreviate then abbreviate_loop mx ABBREVIATION_TABLE s else Exhausted s) =
           Exhausted (apply_entries (entries abbreviate) s)"
proof (cases abbreviate)
  case True
  with assms show ?thesis by (simp add: entries_def abbreviate_loop_exhausted)
next
  case False
  then show ?thesis by (simp add: entries_def)
qed

lemma FixTermLength_returned:
  assumes "k \<le> length (entries abbreviate)"
    and "length (apply_entries (take k (entries abbreviate)) term_name) \<le> TERM_MAX_LENGTH self"
    and "\<forall>j<k. TERM_MAX_LENGTH self < length (apply_entries (take j (entries abbreviate)) term_name)"
  shows "FixTermLength self term_name abbreviate truncate' =
           Inr (apply_entries (take k (entries abbreviate)) term_name)"
proof (cases "k < length (entries abbreviate)")
  case True
  then have ab: "abbreviate" by (auto simp: entries_def split: if_splits)
  with assms True have "abbreviate_loop (TERM_MAX_LENGTH self) ABBREVIATION_TABLE term_name =
      Returned (apply_entries (take k ABBREVIATION_TABLE) term_name)"
    by (intro abbreviate_loop_returned) (simp_all add: entries_def)
  with ab show ?thesis by (simp add: FixTermLength_def entries_def)
next
  case False
  with assms have k: "k = length (entries abbreviate)" by simp
  with assms have fits: "length (apply_entries (entries abbreviate) term_name) \<le> TERM_MAX_LENGTH self"
    by simp
  have "(if abbreviate then
           abbreviate_loop (TERM_MAX_LENGTH self) ABBREVIATION_TABLE term_name
         else Exhausted term_name) = Exhausted (apply_entries (entries abbreviate) term_name)"
    using assms(3) by (intro abbreviate_loop_entries) (simp add: k)
  with fits show ?thesis by (simp add: FixTermLength_def k)
qed

lemma FixTermLength_exhausted:
  assumes "\<forall>k\<le>length (entries abbreviate).
      TERM_MAX_LENGTH self < length (apply_entries (take k (entries abbreviate)) term_name)"
  shows "FixTermLength self term_name abbreviate truncate' =
           (if truncate' then
              Inr (take (TERM_MAX_LENGTH self) (apply_entries (entries abbreviate) term_name))
            else Inl (Error TermNameTooLongError
                   [S (apply_entries (entries abbreviate) term_name), S term_name,
                    N (TERM_MAX_LENGTH self),
                    N (length (apply_entries (entries abbreviate) term_name))]))"
proof -
  from assms have long:
    "TERM_MAX_LENGTH self < length (apply_entries (entries abbreviate) term_name)"
    by auto
  have "(if abbreviate then
           abbreviate_loop (TERM_MAX_LENGTH self) ABBREVIATION_TABLE term_name
         else Exhausted term_name) = Exhausted (apply_entries (entries abbreviate) term_name)"
    using assms by (intro abbreviate_loop_entries) simp
  with long show ?thesis by (simp add: FixTermLength_def Let_def)
qed

text \<open>
  C5.  Let \<open>mx\<close> be the generator's maximum length, \<open>table\<close> the entries that
  the call may apply (the abbreviation table if \<^verbatim>\<open>abbreviate\<close> is set, none
  otherwise) and \<open>r\<close> the outcome of \<^verbatim>\<open>FixTermLength\<close>.
  \<^item> A name of length at most \<open>mx\<close> is returned unchanged, whatever the flags.
  \<^item> If the name fits after the first \<open>k\<close> entries have been applied in the
    table's order, each replacing the occurrences of its long form, and did not fit after
    fewer, the name after these \<open>k\<close> entries is returned.
  \<^item> If the name fits after no number of entries, then with \<^verbatim>\<open>truncate\<close> the
    result is the first \<open>mx\<close> characters of the name after all entries, of length
    exactly \<open>mx\<close>, and without \<^verbatim>\<open>truncate\<close> the call raises
    \<^verbatim>\<open>TermNameTooLongError\<close> with that name, the original name, \<open>mx\<close> and the
    length.
  \<^item> Applying an entry leaves no occurrence of its long form in the name.
\<close>

theorem FixTermLength_spec:
  assumes "mx = TERM_MAX_LENGTH self" and "table = entries abbreviate"
    and "r = FixTermLength self term_name abbreviate truncate'"
  shows "(length term_name \<le> mx \<longrightarrow> r = Inr term_name) \<and>
         (\<forall>k\<le>length table.
            length (apply_entries (take k table) term_name) \<le> mx \<and>
            (\<forall>j<k. mx < length (apply_entries (take j table) term_name)) \<longrightarrow>
            r = Inr (apply_entries (take k table) term_name)) \<and>
         ((\<forall>k\<le>length table. mx < length (apply_entries (take k table) term_name)) \<longrightarrow>
            (truncate' \<longrightarrow>
               r = Inr (take mx (apply_entries table term_name)) \<and>
               length (take mx (apply_entries table term_name)) = mx) \<and>
            (\<not> truncate' \<longrightarrow>
               r = Inl (Error TermNameTooLongError
                          [S (apply_entries table term_name), S term_name, N mx,
                           N (length (apply_entries table term_name))]))) \<and>
         (\<forall>(word, abbrev)\<in>set table. \<forall>s. \<not> sublist word (re_sub word abbrev s))"
proof (intro conjI allI impI)
  show "\<forall>(word, abbrev)\<in>set table. \<forall>s. \<not> sublist word (re_sub word abbrev s)"
  proof (intro ballI, clarify)
    fix word abbrev s
    assume "(word, abbrev) \<in> set table" and occurs: "sublist word (re_sub word abbrev s)"
    with assms(2) have "(word, abbrev) \<in> set ABBREVIATION_TABLE"
      by (simp add: entries_def split: if_splits)
    with ABBREVIATION_TABLE_entries
    have "word \<noteq> []" "abbrev \<noteq> []" "set abbrev \<inter> set word = {}" by blast+
    from re_sub_replaces_all [OF this] occurs show False ..
  qed
  show "r = Inr term_name" if "length term_name \<le> mx"
    using FixTermLength_returned [of 0 abbreviate term_name self truncate'] that assms
    by simp
  show "r = Inr (apply_entries (take k table) term_name)"
    if "k \<le> length table"
      and "length (apply_entries (take k table) term_name) \<le> mx \<and>
           (\<forall>j<k. mx < length (apply_entries (take j table) term_name))" for k
    using FixTermLength_returned [of k abbreviate term_name self truncate'] that assms
    by simp
  assume none: "\<forall>k\<le>length table. mx < length (apply_entries (take k table) term_name)"
  then have "mx < length (apply_entries table term_name)" by auto
  then show "length (take mx (apply_entries table term_name)) = mx" by simp
  show "r = Inr (take mx (apply_entries table term_name))" if "truncate'"
    using FixTermLength_exhausted [of abbreviate self term_name truncate'] none that assms
    by simp
  show "r = Inl (Error TermNameTooLongError
                  [S (apply_entries table term_name), S term_name, N mx,
                   N (length (apply_entries table term_name))])" if "\<not> truncate'"
    using FixTermLength_exhausted [of abbreviate self term_name truncate'] none that assms
    by simp
qed

theorem FixTermLength_spec_witness:
  "FixTermLength ACLGenerator ''short-name'' True True = Inr ''short-name'' \<and>
   FixTermLength (ACLGenerator\<lparr>TERM_MAX_LENGTH := 12\<rparr>) ''my-bogons-list'' True False =
     Inr ''my-BGN-list'' \<and>
   FixTermLength (ACLGenerator\<lparr>TERM_MAX_LENGTH := 12\<rparr>) ''my-unshortened-name'' False True =
     Inr ''my-unshorten'' \<and>
   FixTermLength (ACLGenerator\<lparr>TERM_MAX_LENGTH := 12\<rparr>) ''my-unshortened-name'' False False =
     Inl (Error TermNameTooLongError
            [S ''my-unshortened-name'', S ''my-unshortened-name'', N 12, N 19])"
proof -
  have "FixTermLength ACLGenerator ''short-name'' True True = Inr ''short-name''"
    using FixTermLength_spec [OF refl refl refl, of "''short-name''" ACLGenerator True True,
        THEN conjunct1]
    by (simp add: ACLGenerator_def)
  moreover
  have "FixTermLength (ACLGenerator\<lparr>TERM_MAX_LENGTH := 12\<rparr>) ''my-bogons-list'' True False =
      Inr ''my-BGN-list''"
    using FixTermLength_spec [OF refl refl refl, of "''my-bogons-list''"
        "ACLGenerator\<lparr>TERM_MAX_LENGTH := 12\<rparr>" True False,
        THEN conjunct2, THEN conjunct1, rule_format, of 1]
    by (simp add: entries_def ABBREVIATION_TABLE_def)
  moreover
  have "FixTermLength (ACLGenerator\<lparr>TERM_MAX_LENGTH := 12\<rparr>) ''my-unshortened-name'' False True =
      Inr ''my-unshorten''"
    using FixTermLength_spec [OF refl refl refl, of "''my-unshortened-name''"
        "ACLGenerator\<lparr>TERM_MAX_LENGTH := 12\<rparr>" False True,
        THEN conjunct2, THEN conjunct2]
    by (simp add: entries_def)
  moreover
  have "FixTermLength (ACLGenerator\<lparr>TERM_MAX_LENGTH := 12\<rparr>) ''my-unshortened-name'' False False =
      Inl (Error TermNameTooLongError
             [S ''my-unshortened-name'', S ''my-unshortened-name'', N 12, N 19])"
    using FixTermLength_spec [OF refl refl refl, of "''my-unshortened-name''"
        "ACLGenerator\<lparr>TERM_MAX_LENGTH := 12\<rparr>" False False,
        THEN conjunct2, THEN conjunct2]
    by (simp add: entries_def)
  ultimately show ?thesis by blast
qed


lemma FixTermLength_abbreviated_and_truncated:
  "FixTermLength (ACLGenerator\<lparr>TERM_MAX_LENGTH := 20\<rparr>) ''global-internal-router-border''
       True False = Inr ''GBL-INT-router-BDR'' \<and>
   FixTermLength (ACLGenerator\<lparr>TERM_MAX_LENGTH := 10\<rparr>) ''global-internal-router-border''
       True True = Inr ''GBL-INT-RT'' \<and>
   FixTermLength (ACLGenerator\<lparr>TERM_MAX_LENGTH := 10\<rparr>) ''global-internal-router-border''
       True False =
     Inl (Error TermNameTooLongError
            [S ''GBL-INT-RTR-BDR'', S ''global-internal-router-border'', N 10, N 15])"
  by (simp add: FixTermLength_def ABBREVIATION_TABLE_def)

section \<open>Properties of the keyword check\<close>

lemma collect_err_filter:
  "collect_err valid items err =
     err @ map fst (filter (\<lambda>(el, val). val \<and> el \<notin> valid \<and> \<not> prefix ''flatten'' el) items)"
proof (induction items arbitrary: err)
  case Nil
  then show ?case by simp
next
  case (Cons item items)
  obtain el val where item: "item = (el, val)" by (cases item)
  show ?case
    by (cases "val \<and> el \<notin> valid \<and> \<not> prefix ''flatten'' el") (simp_all add: item Cons.IH)
qed

lemma verify_terms_Cons:
  "verify_terms self (term # terms) =
     (if reported self term then
        Some (Error UnsupportedFilterError
                [S (name term), Platform (PLATFORM self), Names (offending self term)])
      else verify_terms self terms)"
  by (auto simp: reported_def skipped_def offending_def collect_err_filter Let_def)

lemma verify_terms_None:
  "verify_terms self terms = None \<longleftrightarrow> (\<forall>t\<in>set terms. \<not> reported self t)"
  by (induction terms) (auto simp: verify_terms_Cons simp del: verify_terms.simps(2))

lemma verify_terms_Some:
  "verify_terms self terms = Some e \<Longrightarrow>
     \<exists>t\<in>set terms. reported self t \<and>
       e = Error UnsupportedFilterError
             [S (name t), Platform (PLATFORM self), Names (offending self t)]"
  by (induction terms) (auto simp: verify_terms_Cons simp del: verify_terms.simps(2) split: if_splits)


lemma verify_terms_append:
  "verify_terms self (xs @ ys) =
     (case verify_terms self xs of Some e \<Rightarrow> Some e | None \<Rightarrow> verify_terms self ys)"
  by (induction xs) (auto simp: verify_terms_Cons simp del: verify_terms.simps(2))

lemma verify_terms_reached:
  assumes "verify_terms self before = None" and "reported self term"
  shows "verify_terms self (before @ term # after) =
           Some (Error UnsupportedFilterError
                   [S (name term), Platform (PLATFORM self), Names (offending self term)])"
  using assms by (simp add: verify_terms_append verify_terms_Cons del: verify_terms.simps(2))

lemma verify_filters_checked_terms:
  "verify_filters self filters = verify_terms self (checked_terms self filters)"
proof (induction filters)
  case Nil
  then show ?case by (simp add: checked_terms_def)
next
  case (Cons f filters)
  obtain header terms where f: "f = (header, terms)" by (cases f)
  from Cons show ?case
    by (simp add: f checked_terms_def verify_terms_append split: option.splits)
qed

lemma checked_terms_split:
  assumes "platform_in (PLATFORM self) (platforms header)"
  shows "checked_terms self (fpre @ (header, pre @ term # post) # fpost) =
           (checked_terms self fpre @ pre) @ term # (post @ checked_terms self fpost)"
    and "checked_terms self (fpre @ (header, pre @ post) # fpost) =
           (checked_terms self fpre @ pre) @ (post @ checked_terms self fpost)"
  using assms by (simp_all add: checked_terms_def)

text \<open>
  C6.  Let a term stand anywhere in the term list of a header that names the
  generator's platform.
  \<^item> If the term is skipped (its non-empty platform list lacks the platform, or its
    exclude list has it), the constructor's outcome is that of the check on the policy
    without the term, whatever fields the term populates.
  \<^item> If the term is not skipped and has an offending field, the constructor raises
    \<^verbatim>\<open>UnsupportedFilterError\<close>; the error names a checked term that is not
    skipped and lists all of that term's offending fields; and when no term before this
    one is reported, the error names this term, the platform and every offending field
    of this term.
\<close>

theorem keyword_check:
  assumes "filters = fpre @ (header, pre @ term # post) # fpost"
    and "platform_in (PLATFORM self) (platforms header)"
  shows "(skipped self term \<longrightarrow>
            ACLGenerator_init self TranslatePolicy filters =
              (case verify_filters self (fpre @ (header, pre @ post) # fpost) of
                 Some e \<Rightarrow> Inl e
               | None \<Rightarrow> TranslatePolicy filters)) \<and>
         (\<not> skipped self term \<and> offending self term \<noteq> [] \<longrightarrow>
            (\<exists>t\<in>set (checked_terms self filters).
               \<not> skipped self t \<and> offending self t \<noteq> [] \<and>
               ACLGenerator_init self TranslatePolicy filters =
                 Inl (Error UnsupportedFilterError
                        [S (name t), Platform (PLATFORM self), Names (offending self t)])) \<and>
            (verify_filters self fpre = None \<and> verify_terms self pre = None \<longrightarrow>
               ACLGenerator_init self TranslatePolicy filters =
                 Inl (Error UnsupportedFilterError
                        [S (name term), Platform (PLATFORM self), Names (offending self term)])))"
proof (intro conjI impI)
  let ?before = "checked_terms self fpre @ pre"
  let ?after = "post @ checked_terms self fpost"
  have split: "checked_terms self filters = ?before @ term # ?after"
    unfolding assms(1) by (rule checked_terms_split [OF assms(2)])
  have split': "checked_terms self (fpre @ (header, pre @ post) # fpost) = ?before @ ?after"
    by (rule checked_terms_split [OF assms(2)])
  show "ACLGenerator_init self TranslatePolicy filters =
          (case verify_filters self (fpre @ (header, pre @ post) # fpost) of
             Some e \<Rightarrow> Inl e
           | None \<Rightarrow> TranslatePolicy filters)"
    if "skipped self term"
  proof -
    from that have "\<not> reported self term" by (simp add: reported_def)
    then have "verify_terms self (term # ?after) = verify_terms self ?after"
      by (simp add: verify_terms_Cons del: verify_terms.simps(2))
    then have "verify_terms self (?before @ term # ?after) = verify_terms self (?before @ ?after)"
      by (simp only: verify_terms_append [of self ?before])
    then show ?thesis
      by (simp add: ACLGenerator_init_def verify_filters_checked_terms split split')
  qed
  assume bad: "\<not> skipped self term \<and> offending self term \<noteq> []"
  then have rep: "reported self term" by (simp add: reported_def)
  then have "verify_terms self (checked_terms self filters) \<noteq> None"
    by (auto simp: verify_terms_None split)
  then obtain e where e: "verify_terms self (checked_terms self filters) = Some e" by blast
  from verify_terms_Some [OF e] e
  show "\<exists>t\<in>set (checked_terms self filters).
          \<not> skipped self t \<and> offending self t \<noteq> [] \<and>
          ACLGenerator_init self TranslatePolicy filters =
            Inl (Error UnsupportedFilterError
                   [S (name t), Platform (PLATFORM self), Names (offending self t)])"
    by (auto simp: ACLGenerator_init_def verify_filters_checked_terms reported_def)
  assume "verify_filters self fpre = None \<and> verify_terms self pre = None"
  then have "verify_terms self ?before = None"
    by (simp add: verify_filters_checked_terms verify_terms_append)
  from verify_terms_reached [OF this rep]
  have "verify_terms self (?before @ term # ?after) =
      Some (Error UnsupportedFilterError
              [S (name term), Platform (PLATFORM self), Names (offending self term)])" .
  then show "ACLGenerator_init self TranslatePolicy filters =
      Inl (Error UnsupportedFilterError
             [S (name term), Platform (PLATFORM self), Names (offending self term)])"
    by (simp add: ACLGenerator_init_def verify_filters_checked_terms split)
qed


theorem keyword_check_witness:
  "ACLGenerator_init example_generator (\<lambda>pol. Inr ()) example_filters =
     Inl (Error UnsupportedFilterError
            [S ''count-all'', Platform (Some ''juniper''), Names [''qos'', ''counter'']]) \<and>
   ACLGenerator_init example_generator (\<lambda>pol. Inr ())
       [(\<lparr>platforms = [''juniper'', ''cisco'']\<rparr>, [other_platform_term])] = Inr ()"
proof -
  have p: "platform_in (PLATFORM example_generator) (platforms \<lparr>platforms = [''juniper'', ''cisco'']\<rparr>)"
    by (simp add: example_generator_def)
  have sk: "skipped example_generator other_platform_term"
    by (simp add: skipped_def example_generator_def other_platform_term_def)
  have nsk: "\<not> skipped example_generator unsupported_term"
    by (simp add: skipped_def example_generator_def unsupported_term_def)
  have off: "offending example_generator unsupported_term = [''qos'', ''counter'']"
    by (simp add: offending_def unsupported_term_def VALID_KEYWORDS_def REQUIRED_KEYWORDS_def
          example_generator_def ACLGenerator_def)
  have pre: "verify_filters example_generator [(\<lparr>platforms = [''cisco'']\<rparr>, [unsupported_term])] = None"
    by (simp add: example_generator_def)
  have pre': "verify_terms example_generator [other_platform_term] = None"
    by (simp add: example_generator_def other_platform_term_def)
  have "ACLGenerator_init example_generator (\<lambda>pol. Inr ()) example_filters =
     Inl (Error UnsupportedFilterError
            [S ''count-all'', Platform (Some ''juniper''), Names [''qos'', ''counter'']])"
    using keyword_check [of example_filters "[(\<lparr>platforms = [''cisco'']\<rparr>, [unsupported_term])]"
        "\<lparr>platforms = [''juniper'', ''cisco'']\<rparr>" "[other_platform_term]" unsupported_term "[]" "[]"
        example_generator "\<lambda>pol. Inr ()", OF _ p] nsk pre pre'
    by (simp add: off example_filters_def) (simp add: unsupported_term_def example_generator_def)
  moreover
  have "ACLGenerator_init example_generator (\<lambda>pol. Inr ())
       [(\<lparr>platforms = [''juniper'', ''cisco'']\<rparr>, [other_platform_term])] = Inr ()"
    using keyword_check [of "[(\<lparr>platforms = [''juniper'', ''cisco'']\<rparr>, [other_platform_term])]" "[]"
        "\<lparr>platforms = [''juniper'', ''cisco'']\<rparr>" "[]" other_platform_term "[]" "[]"
        example_generator "\<lambda>pol. (Inr () :: error + unit)", OF _ p] sk
    by (simp add: example_generator_def)
  ultimately show ?thesis by blast
qed

end
